theory Spec2Isabelle
  imports Complex_Main "HOL-Library.Char_ord" "HOL-Library.List_Lexorder"
begin

section \<open>Strings and raw records\<close>

text \<open>
  The engine of \<^verbatim>\<open>src/unnamed/part_001\<close> works on records parsed from two JSON files.
  Strings are modelled as \<^typ>\<open>string\<close> (a character outside ASCII by the bytes of its
  generalised UTF-8 encoding; the strings the code sorts are renderings of numbers and keys
  of checkboxes); numbers are the exact values of the finite doubles a JSON file can hold,
  as \<^typ>\<open>real\<close>. What the code calls of the JavaScript runtime is not
  code of the repository, and the model takes it as a parameter: the rendering of a number
  as a string (\<^verbatim>\<open>Number::toString\<close>), \<^verbatim>\<open>String.prototype.trim\<close>,
  \<^verbatim>\<open>String.prototype.toUpperCase\<close>, \<^verbatim>\<open>Math.cos\<close> and \<^verbatim>\<open>Math.sin\<close> (the last two are
  left to the implementation by the language standard). A function that only renders
  numbers takes the rendering alone, as \<open>ns\<close>.
\<close>

record runtime =
  numberToString :: "real \<Rightarrow> string"
  trim :: "string \<Rightarrow> string"
  toUpperCase :: "string \<Rightarrow> string"
  mathCos :: "real \<Rightarrow> real"
  mathSin :: "real \<Rightarrow> real"

text \<open>What \<^verbatim>\<open>toUpperCase\<close> and \<^verbatim>\<open>trim\<close> do to a string of ASCII characters: the letters
  \<open>a\<close> to \<open>z\<close> are mapped to \<open>A\<close> to \<open>Z\<close>, and the characters \<open>0x09\<close> to \<open>0x0D\<close> and the
  space are stripped from both ends. The two functions are the sample runtime's, which
  the closed instances apply to strings of ASCII characters only.\<close>

definition toUpperChar :: "char \<Rightarrow> char" where
  "toUpperChar c =
     (case map_of (zip ''abcdefghijklmnopqrstuvwxyz'' ''ABCDEFGHIJKLMNOPQRSTUVWXYZ'') c of
        Some u \<Rightarrow> u
      | None \<Rightarrow> c)"

definition asciiUpperCase :: "string \<Rightarrow> string" where
  "asciiUpperCase s = map toUpperChar s"

definition isWhiteSpace :: "char \<Rightarrow> bool" where
  "isWhiteSpace c \<longleftrightarrow> c \<in> set [CHR 0x09, CHR 0x0A, CHR 0x0B, CHR 0x0C, CHR 0x0D, CHR 0x20]"

definition asciiTrim :: "string \<Rightarrow> string" where
  "asciiTrim s = rev (dropWhile isWhiteSpace (rev (dropWhile isWhiteSpace s)))"

text \<open>\<^verbatim>\<open>Array.prototype.join\<close> on an array of strings.\<close>

fun join :: "string \<Rightarrow> string list \<Rightarrow> string" where
  "join sep [] = []"
| "join sep [x] = x"
| "join sep (x # y # ys) = x @ sep @ join sep (y # ys)"

text \<open>A sample rendering of numbers for closed instances: the decimal digits of an integer
  value, which is what \<^verbatim>\<open>Number::toString\<close> gives for integers below \<open>10^21\<close>.\<close>

definition digitChar :: "nat \<Rightarrow> char" where
  "digitChar d = ''0123456789'' ! d"

fun digitsOf :: "nat \<Rightarrow> string" where
  "digitsOf n = (if n < 10 then [digitChar n] else digitsOf (n div 10) @ [digitChar (n mod 10)])"

declare digitsOf.simps [simp del]

definition integerString :: "real \<Rightarrow> string" where
  "integerString x = (if x < 0 then ''-'' else []) @ digitsOf (nat \<lfloor>\<bar>x\<bar>\<rfloor>)"

text \<open>The only exception the modelled code can raise.\<close>

datatype error = TypeError

text \<open>A value parsed from JSON, and \<^verbatim>\<open>undefined\<close> for what a read of a missing member
  gives. An object is the list of its own members.\<close>

datatype json =
    JUndefined
  | JNull
  | JBool bool
  | JNum real
  | JStr string
  | JArr "json list"
  | JObj "(string \<times> json) list"

fun nullish :: "json \<Rightarrow> bool" where
  "nullish JUndefined = True"
| "nullish JNull = True"
| "nullish _ = False"

text \<open>\<^verbatim>\<open>d?.[key]\<close> for the member names the engine reads (none of them is inherited from a
  prototype, and none is an index or \<^verbatim>\<open>length\<close>): an own member of an object, else
  \<^verbatim>\<open>undefined\<close>.\<close>

fun member :: "json \<Rightarrow> string \<Rightarrow> json" where
  "member (JObj kvs) key = (case map_of kvs key of Some v \<Rightarrow> v | None \<Rightarrow> JUndefined)"
| "member _ key = JUndefined"

text \<open>\<^verbatim>\<open>a ?? b\<close>.\<close>

definition orElse :: "json \<Rightarrow> json \<Rightarrow> json" where
  "orElse a b = (if nullish a then b else a)"

text \<open>\<^verbatim>\<open>function getProp(d, key) { return d?.[key] ?? d?.properties?.[key]; }\<close>\<close>

definition getProp :: "json \<Rightarrow> string \<Rightarrow> json" where
  "getProp d key = orElse (member d key) (member (member d ''properties'') key)"

text \<open>\<^verbatim>\<open>String(v)\<close>. An array is joined with commas, \<^verbatim>\<open>null\<close> and \<^verbatim>\<open>undefined\<close>
  elements giving the empty string. A parsed object has no callable member of its own: it
  converts through \<^verbatim>\<open>Object.prototype.toString\<close> unless an own member named
  \<^verbatim>\<open>toString\<close> shadows it, and then the conversion throws.\<close>

fun jsString :: "(real \<Rightarrow> string) \<Rightarrow> json \<Rightarrow> error + string"
and elemStrings :: "(real \<Rightarrow> string) \<Rightarrow> json list \<Rightarrow> error + string list" where
  "jsString ns JUndefined = Inr ''undefined''"
| "jsString ns JNull = Inr ''null''"
| "jsString ns (JBool b) = Inr (if b then ''true'' else ''false'')"
| "jsString ns (JNum x) = Inr (ns x)"
| "jsString ns (JStr s) = Inr s"
| "jsString ns (JArr xs) =
     (case elemStrings ns xs of Inl e \<Rightarrow> Inl e | Inr ss \<Rightarrow> Inr (join '','' ss))"
| "jsString ns (JObj kvs) =
     (if ''toString'' \<in> fst ` set kvs then Inl TypeError else Inr ''[object Object]'')"
| "elemStrings ns [] = Inr []"
| "elemStrings ns (x # xs) =
     (case (if nullish x then Inr [] else jsString ns x) of
        Inl e \<Rightarrow> Inl e
      | Inr s \<Rightarrow> (case elemStrings ns xs of Inl e \<Rightarrow> Inl e | Inr ss \<Rightarrow> Inr (s # ss)))"

text \<open>\<^verbatim>\<open>xs.map(f)\<close> and \<^verbatim>\<open>xs.filter(f)\<close> with a callback that may throw.\<close>

fun mapE :: "('a \<Rightarrow> error + 'b) \<Rightarrow> 'a list \<Rightarrow> error + 'b list" where
  "mapE f [] = Inr []"
| "mapE f (x # xs) =
     (case f x of
        Inl e \<Rightarrow> Inl e
      | Inr y \<Rightarrow> (case mapE f xs of Inl e \<Rightarrow> Inl e | Inr ys \<Rightarrow> Inr (y # ys)))"

fun filterE :: "('a \<Rightarrow> error + bool) \<Rightarrow> 'a list \<Rightarrow> error + 'a list" where
  "filterE f [] = Inr []"
| "filterE f (x # xs) =
     (case f x of
        Inl e \<Rightarrow> Inl e
      | Inr b \<Rightarrow> (case filterE f xs of
                   Inl e \<Rightarrow> Inl e
                 | Inr ys \<Rightarrow> Inr (if b then x # ys else ys)))"

section \<open>Arithmetic of doubles\<close>

text \<open>
  A JavaScript number is an IEEE 754 binary64 value, and \<^verbatim>\<open>+\<close>, \<^verbatim>\<open>-\<close>, \<^verbatim>\<open>*\<close> and \<^verbatim>\<open>/\<close>
  give the exact result rounded to the nearest double, a tie going to the even significand.
  \<open>binary64 x\<close> is that rounding of the real \<open>x\<close>: in the binade of \<open>x\<close> the doubles are the
  multiples of \<open>2^(e - 52)\<close>, where \<open>e\<close> is the exponent of \<open>x\<close> (\<open>2^e \<le> |x| < 2^(e + 1)\<close>) and
  at least \<open>-1022\<close> (the subnormal range). The two zeros are one number \<open>0\<close>. A result beyond the largest double
  stays finite where IEEE gives an infinity: of the operations modelled here only the
  subtraction in \<^verbatim>\<open>near\<close> can give one, and its absolute value is then compared with
  \<^verbatim>\<open>HUB_EPS\<close>, which is false either way.
\<close>

definition roundHalfEven :: "real \<Rightarrow> int" where
  "roundHalfEven q =
     (let f = \<lfloor>q\<rfloor>; r = q - real_of_int f
      in if r < 1 / 2 then f else if 1 / 2 < r then f + 1 else if even f then f else f + 1)"

definition exponent :: "real \<Rightarrow> int" where
  "exponent x = (if x = 0 then 0 else \<lfloor>log 2 \<bar>x\<bar>\<rfloor>)"

definition binary64 :: "real \<Rightarrow> real" where
  "binary64 x =
     (if x = 0 then 0
      else let e = max (exponent x) (- 1022);
               ulp = 2 powi (e - 52)
           in real_of_int (roundHalfEven (x / ulp)) * ulp)"

definition fadd :: "real \<Rightarrow> real \<Rightarrow> real" where
  "fadd a b = binary64 (a + b)"

definition fsub :: "real \<Rightarrow> real \<Rightarrow> real" where
  "fsub a b = binary64 (a - b)"

definition fmul :: "real \<Rightarrow> real \<Rightarrow> real" where
  "fmul a b = binary64 (a * b)"

definition fdiv :: "real \<Rightarrow> real \<Rightarrow> real" where
  "fdiv a b = binary64 (a / b)"

text \<open>\<^verbatim>\<open>Math.PI\<close>, the double nearest to \<open>\<pi>\<close> (\<^verbatim>\<open>0x400921FB54442D18\<close>).\<close>

definition MATH_PI :: real where
  "MATH_PI = 884279719003555 / 2 ^ 48"

section \<open>Classifier\<close>

text \<open>
\<^verbatim>\<open>
function getConnType(d: any): string {
    const t = getProp(d, "Connection_type") ?? getProp(d, "connection_type");
    const up = String(t ?? "").trim().toUpperCase();
    if (up === "N_TYPE") return "N";
    return up;
}
\<close>
\<close>

definition getConnType :: "runtime \<Rightarrow> json \<Rightarrow> error + string" where
  "getConnType rt d =
     (let t = orElse (getProp d ''Connection_type'') (getProp d ''connection_type'') in
      case jsString (numberToString rt) (orElse t (JStr [])) of
        Inl e \<Rightarrow> Inl e
      | Inr s \<Rightarrow>
          (let up = toUpperCase rt (trim rt s) in
           if up = ''N_TYPE'' then Inr ''N'' else Inr up))"

text \<open>
\<^verbatim>\<open>
function getIERArray(d: any): string[] {
    const ierValue = getProp(d, "IER");
    if (Array.isArray(ierValue)) {
        return ierValue.map(item => String(item ?? '').toUpperCase());
    }
    return [];
}
\<close>
\<close>

definition getIERArray :: "runtime \<Rightarrow> json \<Rightarrow> error + string list" where
  "getIERArray rt d =
     (case getProp d ''IER'' of
        JArr ierValue \<Rightarrow>
          mapE (\<lambda>item. case jsString (numberToString rt) (orElse item (JStr [])) of
                         Inl e \<Rightarrow> Inl e
                       | Inr s \<Rightarrow> Inr (toUpperCase rt s)) ierValue
      | _ \<Rightarrow> Inr [])"

text \<open>The type field as the specification describes its reading: the spelling
  \<^verbatim>\<open>Connection_type\<close> before \<^verbatim>\<open>connection_type\<close>, each directly and then under
  \<^verbatim>\<open>properties\<close>; the first value that is neither \<^verbatim>\<open>null\<close> nor \<^verbatim>\<open>undefined\<close>.\<close>

definition typeField :: "json \<Rightarrow> json" where
  "typeField d =
     (case filter (\<lambda>v. \<not> nullish v)
             [member d ''Connection_type'',
              member (member d ''properties'') ''Connection_type'',
              member d ''connection_type'',
              member (member d ''properties'') ''connection_type''] of
        [] \<Rightarrow> JUndefined
      | v # _ \<Rightarrow> v)"

text \<open>Values whose conversion by \<^verbatim>\<open>String\<close> does not throw: no object with an own member
  named \<^verbatim>\<open>toString\<close>, at any depth of nested arrays.\<close>

fun stringifiable :: "json \<Rightarrow> bool" where
  "stringifiable (JArr xs) = (\<forall>x \<in> set xs. stringifiable x)"
| "stringifiable (JObj kvs) = (''toString'' \<notin> fst ` set kvs)"
| "stringifiable _ = True"

section \<open>Points and the point index\<close>

text \<open>
  A point is a \<^verbatim>\<open>Feature\<close> (\<^verbatim>\<open>GeoJSON.Feature<GeoJSON.Geometry, Properties>\<close>, the type
  the source gives the values of \<^verbatim>\<open>pointMap\<close>). Its geometry is a \<^verbatim>\<open>Point\<close> with a flat
  array of numbers, one of the other coordinate-bearing kinds (\<^verbatim>\<open>MultiPoint\<close>,
  \<^verbatim>\<open>LineString\<close>, \<^verbatim>\<open>Polygon\<close>, ...: arrays of arrays), or a \<^verbatim>\<open>GeometryCollection\<close>,
  which has no \<^verbatim>\<open>coordinates\<close>. The name is read as \<^verbatim>\<open>getProp\<close> reads it: a member
  \<^verbatim>\<open>name\<close> of the record itself first, then \<^verbatim>\<open>properties.name\<close>.
\<close>

datatype coord = CNum real | CArr "coord list"

datatype geometry = Point "real list" | Nested "coord list" | GeometryCollection

record properties =
  p_name :: "string option"

record feature =
  f_name :: "string option"
  f_properties :: "properties option"
  f_geometry :: geometry

datatype PointType =
    YELLOW_GROUP | PURPLE_GROUP | ORANGE_GROUP | GREEN_GROUP | RED_GROUP
  | TURQUOISE_GROUP | VIOLET_GROUP | BLUE_GROUP | PINK_GROUP | WHITE_GROUP
  | OKC_GROUP | MAGENTA_GROUP | GREY_GROUP

text \<open>The string a \<^verbatim>\<open>PointType\<close> is at run time.\<close>

fun pointTypeName :: "PointType \<Rightarrow> string" where
  "pointTypeName YELLOW_GROUP = ''YELLOW_GROUP''"
| "pointTypeName PURPLE_GROUP = ''PURPLE_GROUP''"
| "pointTypeName ORANGE_GROUP = ''ORANGE_GROUP''"
| "pointTypeName GREEN_GROUP = ''GREEN_GROUP''"
| "pointTypeName RED_GROUP = ''RED_GROUP''"
| "pointTypeName TURQUOISE_GROUP = ''TURQUOISE_GROUP''"
| "pointTypeName VIOLET_GROUP = ''VIOLET_GROUP''"
| "pointTypeName BLUE_GROUP = ''BLUE_GROUP''"
| "pointTypeName PINK_GROUP = ''PINK_GROUP''"
| "pointTypeName WHITE_GROUP = ''WHITE_GROUP''"
| "pointTypeName OKC_GROUP = ''OKC_GROUP''"
| "pointTypeName MAGENTA_GROUP = ''MAGENTA_GROUP''"
| "pointTypeName GREY_GROUP = ''GREY_GROUP''"

text \<open>\<^verbatim>\<open>PinLogic.PIN_LOOKUP_MAP\<close>, entry by entry.\<close>

definition PIN_LOOKUP_MAP :: "(string \<times> PointType) list" where
  "PIN_LOOKUP_MAP =
    [(''sb'', VIOLET_GROUP), (''Ship'', VIOLET_GROUP),
     (''Point 13'', YELLOW_GROUP), (''E6-1'', YELLOW_GROUP), (''E6-2'', YELLOW_GROUP),
     (''Point 6'', YELLOW_GROUP), (''E6-3'', YELLOW_GROUP), (''E6-4'', YELLOW_GROUP),
     (''E6-5'', YELLOW_GROUP), (''E6-6'', YELLOW_GROUP), (''E6-7'', YELLOW_GROUP),
     (''E6-8'', YELLOW_GROUP),
     (''Support Team'', PURPLE_GROUP), (''B'', PURPLE_GROUP),
     (''Bale HFCGS'', GREEN_GROUP), (''M'', GREEN_GROUP), (''NE'', GREEN_GROUP),
     (''FOB1'', RED_GROUP), (''FOB2'', RED_GROUP),
     (''PENT'', TURQUOISE_GROUP), (''COS'', TURQUOISE_GROUP), (''TB'', TURQUOISE_GROUP),
     (''RR'', TURQUOISE_GROUP), (''AZ'', TURQUOISE_GROUP), (''IP'', TURQUOISE_GROUP),
     (''SAN'', PINK_GROUP), (''SBL'', PINK_GROUP), (''LUL'', PINK_GROUP),
     (''Site A'', ORANGE_GROUP), (''Site B'', ORANGE_GROUP), (''Site C'', ORANGE_GROUP),
     (''Cutler'', WHITE_GROUP), (''Grindavik'', WHITE_GROUP), (''Awase'', WHITE_GROUP),
     (''Harold E. Holt'', WHITE_GROUP), (''Aguada'', WHITE_GROUP), (''Wahiawa'', WHITE_GROUP),
     (''Naples'', WHITE_GROUP), (''Dixon'', WHITE_GROUP), (''Jim Creek'', WHITE_GROUP),
     (''La Moure'', WHITE_GROUP), (''Norfolk'', WHITE_GROUP), (''Yokosuka'', WHITE_GROUP),
     (''H_AK'', MAGENTA_GROUP), (''Beale HFCGS'', MAGENTA_GROUP), (''E'', MAGENTA_GROUP),
     (''LRT1'', GREY_GROUP), (''LRT2'', GREY_GROUP), (''LRT3'', GREY_GROUP),
     (''MOB'', OKC_GROUP)]"

text \<open>\<^verbatim>\<open>function getPointName(d) { return getProp(d, "name") ?? ""; }\<close>\<close>

definition getPointName :: "feature \<Rightarrow> string" where
  "getPointName d =
     (case f_name d of
        Some n \<Rightarrow> n
      | None \<Rightarrow>
          (case f_properties d of
             None \<Rightarrow> []
           | Some props \<Rightarrow> (case p_name props of Some n \<Rightarrow> n | None \<Rightarrow> [])))"

text \<open>The names of the members the lookup map inherits from \<^verbatim>\<open>Object.prototype\<close> (in a
  browser): a read of the map under such a name gives that member, a function or an object.
  None of them is an entry of the map itself.\<close>

definition objectPrototypeMembers :: "string list" where
  "objectPrototypeMembers =
     [''constructor'', ''hasOwnProperty'', ''isPrototypeOf'', ''propertyIsEnumerable'',
      ''toLocaleString'', ''toString'', ''valueOf'', ''__defineGetter__'',
      ''__defineSetter__'', ''__lookupGetter__'', ''__lookupSetter__'', ''__proto__'']"

text \<open>The value \<^verbatim>\<open>_pinType\<close>, \<^verbatim>\<open>_sourcePinType\<close> or \<^verbatim>\<open>_targetPinType\<close> holds: a group, or the
  inherited member of that name, which is no \<^verbatim>\<open>PointType\<close> and the same as no other value.\<close>

datatype pinTypeValue = Group PointType | Inherited string

text \<open>\<^verbatim>\<open>return PinLogic.PIN_LOOKUP_MAP[name] ?? "BLUE_GROUP";\<close>\<close>

definition getPinType :: "feature \<Rightarrow> pinTypeValue" where
  "getPinType d =
     (let name = getPointName d in
      case map_of PIN_LOOKUP_MAP name of
        Some g \<Rightarrow> Group g
      | None \<Rightarrow> if name \<in> set objectPrototypeMembers then Inherited name else Group BLUE_GROUP)"

text \<open>The hub constants: the doubles the decimal literals of the source denote
  (\<^verbatim>\<open>-82.492696\<close>, \<^verbatim>\<open>27.8602\<close>, \<^verbatim>\<open>1e-6\<close>, \<^verbatim>\<open>9.077841\<close>, \<^verbatim>\<open>48.734481\<close>).\<close>

definition HUB_LNG :: real where "HUB_LNG = binary64 (- 82.492696)"

definition HUB_LAT :: real where "HUB_LAT = binary64 27.8602"

definition HUB_EPS :: real where "HUB_EPS = binary64 (1 / 1000000)"

definition HUB2_LNG :: real where "HUB2_LNG = binary64 9.077841"

definition HUB2_LAT :: real where "HUB2_LAT = binary64 48.734481"

text \<open>The point added under the name \<^verbatim>\<open>HUB2\<close>.\<close>

definition hub2Feature :: feature where
  "hub2Feature =
     \<lparr>f_name = None, f_properties = Some \<lparr>p_name = Some ''HUB2''\<rparr>,
      f_geometry = Point [HUB2_LNG, HUB2_LAT]\<rparr>"

text \<open>
\<^verbatim>\<open>
const pointMap = new Map<string, Feature>();
allPoints.forEach((p: Feature) => {
    const name = getPointName(p);
    if (name) pointMap.set(name, p);
});
pointMap.set("HUB2", { ... });
\<close>
\<close>

definition buildPointMap :: "feature list \<Rightarrow> (string \<rightharpoonup> feature)" where
  "buildPointMap allPoints =
     (fold (\<lambda>p pointMap. let name = getPointName p in
                          if name \<noteq> [] then pointMap(name \<mapsto> p) else pointMap)
        allPoints Map.empty)(''HUB2'' \<mapsto> hub2Feature)"

text \<open>\<^verbatim>\<open>pointMap.get(key)\<close> with the value a connection record holds as key: the keys of the
  map are strings, and no other value is the same as a string.\<close>

definition pointMapGet :: "(string \<rightharpoonup> feature) \<Rightarrow> json \<Rightarrow> feature option" where
  "pointMapGet pointMap key = (case key of JStr name \<Rightarrow> pointMap name | _ \<Rightarrow> None)"

text \<open>\<^verbatim>\<open>xs[i]\<close>, \<^verbatim>\<open>undefined\<close> out of range.\<close>

fun nthOpt :: "'a list \<Rightarrow> nat \<Rightarrow> 'a option" where
  "nthOpt [] i = None"
| "nthOpt (x # xs) 0 = Some x"
| "nthOpt (x # xs) (Suc i) = nthOpt xs i"

text \<open>\<^verbatim>\<open>p?.geometry?.type === 'Point' ? p.geometry.coordinates : undefined\<close>\<close>

definition pointCoordinates :: "feature option \<Rightarrow> real list option" where
  "pointCoordinates p =
     (case p of
        None \<Rightarrow> None
      | Some f \<Rightarrow> (case f_geometry f of Point coordinates \<Rightarrow> Some coordinates | _ \<Rightarrow> None))"

section \<open>Proximity to the hubs\<close>

text \<open>\<^verbatim>\<open>function near(a, b, eps = HUB_EPS) { return Math.abs(a - b) <= eps; }\<close>; a missing
  coordinate (\<^verbatim>\<open>undefined\<close>) gives \<^verbatim>\<open>NaN\<close> and is near nothing.\<close>

definition near :: "real option \<Rightarrow> real \<Rightarrow> bool" where
  "near a b = (case a of None \<Rightarrow> False | Some x \<Rightarrow> \<bar>fsub x b\<bar> \<le> HUB_EPS)"

text \<open>
\<^verbatim>\<open>
function connectsToHub(d: any): boolean {
    const s = getSourcePos(d);
    const t = getTargetPos(d);
    if (!Array.isArray(s) || !Array.isArray(t)) return false;
    const [slng, slat] = s;
    const [tlng, tlat] = t;
    return (near(slng, HUB_LNG) && near(slat, HUB_LAT)) ||
           (near(tlng, HUB_LNG) && near(tlat, HUB_LAT));
}
\<close>
  called on the two coordinate arrays of a connection's endpoints.
\<close>

definition connectsToHub :: "real list option \<Rightarrow> real list option \<Rightarrow> bool" where
  "connectsToHub s t =
     (case s of
        None \<Rightarrow> False
      | Some sc \<Rightarrow>
          (case t of
             None \<Rightarrow> False
           | Some tc \<Rightarrow>
               (near (nthOpt sc 0) HUB_LNG \<and> near (nthOpt sc 1) HUB_LAT)
               \<or> (near (nthOpt tc 0) HUB_LNG \<and> near (nthOpt tc 1) HUB_LAT)))"

definition connectsToHub2 :: "real list option \<Rightarrow> real list option \<Rightarrow> bool" where
  "connectsToHub2 s t =
     (case s of
        None \<Rightarrow> False
      | Some sc \<Rightarrow>
          (case t of
             None \<Rightarrow> False
           | Some tc \<Rightarrow>
               (near (nthOpt sc 0) HUB2_LNG \<and> near (nthOpt sc 1) HUB2_LAT)
               \<or> (near (nthOpt tc 0) HUB2_LNG \<and> near (nthOpt tc 1) HUB2_LAT)))"

section \<open>Connection resolver\<close>

text \<open>The record the \<^verbatim>\<open>map\<close> step of \<^verbatim>\<open>preprocessData\<close> builds: the members of the raw
  connection (\<^verbatim>\<open>...c\<close>, kept here as the raw record itself) overridden by the resolved
  endpoints and the derived fields.\<close>

record resolved =
  c_spread :: json
  c_from :: "feature option"
  c_to :: "feature option"
  c_sourcePos :: "real list option"
  c_targetPos :: "real list option"
  c_connType :: string
  c_ierTypes :: "string list"
  c_sourcePinType :: pinTypeValue
  c_targetPinType :: pinTypeValue
  c_isHub1 :: bool
  c_isHub2 :: bool

text \<open>
  The first \<^verbatim>\<open>filter\<close> of \<^verbatim>\<open>preprocessData\<close>:
\<^verbatim>\<open>
.filter((c: any) => {
    const connType = getConnType(c);
    if (connType === 'TR') {
        const fromName = getProp(c, "from");
        const toPoint = pointMap.get(getProp(c, "to"));
        const toLng = toPoint?.geometry.type === 'Point' ? toPoint.geometry.coordinates[0] : undefined;
        if (toLng == null) return true; // Keep if destination is unknown.
        if (fromName === 'Ohio Pin') {
            return toLng > -90; // East of Mississippi
        }
        if (fromName === 'FOB1') {
            return toLng < -90; // West of Mississippi
        }
    }
    return true; // Keep all other connections
})
\<close>
\<close>

definition targetLongitude :: "(string \<rightharpoonup> feature) \<Rightarrow> json \<Rightarrow> real option" where
  "targetLongitude pointMap c =
     (case pointMapGet pointMap (getProp c ''to'') of
        None \<Rightarrow> None
      | Some toPoint \<Rightarrow>
          (case f_geometry toPoint of Point coordinates \<Rightarrow> nthOpt coordinates 0 | _ \<Rightarrow> None))"

definition keepConnection ::
  "runtime \<Rightarrow> (string \<rightharpoonup> feature) \<Rightarrow> json \<Rightarrow> error + bool" where
  "keepConnection rt pointMap c =
     (case getConnType rt c of
        Inl e \<Rightarrow> Inl e
      | Inr connType \<Rightarrow>
          Inr (if connType = ''TR'' then
                 (let fromName = getProp c ''from'' in
                  case targetLongitude pointMap c of
                    None \<Rightarrow> True
                  | Some toLng \<Rightarrow>
                      if fromName = JStr ''Ohio Pin'' then toLng > -90
                      else if fromName = JStr ''FOB1'' then toLng < -90
                      else True)
               else True))"

text \<open>
  The \<^verbatim>\<open>map\<close> step:
\<^verbatim>\<open>
.map((c: any) => {
    const fromPoint = pointMap.get(getProp(c, "from"));
    const toPoint = pointMap.get(getProp(c, "to"));
    const sourcePinType = fromPoint ? getPinType(fromPoint) : "BLUE_GROUP";
    const targetPinType = toPoint ? getPinType(toPoint) : "BLUE_GROUP";
    return {
        ...c,
        from: fromPoint,
        to: toPoint,
        _sourcePos: fromPoint?.geometry?.type === 'Point' ? fromPoint.geometry.coordinates : undefined,
        _targetPos: toPoint?.geometry?.type === 'Point' ? toPoint.geometry.coordinates : undefined,
        _connType: getConnType(c),
        _ierTypes: getIERArray(c),
        _sourcePinType: sourcePinType,
        _targetPinType: targetPinType,
        _isHub1: connectsToHub({ _sourcePos: fromPoint?.geometry?.coordinates, _targetPos: toPoint?.geometry?.coordinates }),
        _isHub2: connectsToHub2({ _sourcePos: fromPoint?.geometry?.coordinates, _targetPos: toPoint?.geometry?.coordinates })
    };
})
\<close>
  The hub flags of a record with an endpoint that is not a \<^verbatim>\<open>Point\<close> are set to
  \<open>False\<close> here; the last filter removes such a record before anything reads them.
\<close>

definition resolveConnection ::
  "runtime \<Rightarrow> (string \<rightharpoonup> feature) \<Rightarrow> json \<Rightarrow> error + resolved" where
  "resolveConnection rt pointMap c =
     (let fromPoint = pointMapGet pointMap (getProp c ''from'');
          toPoint = pointMapGet pointMap (getProp c ''to'');
          sourcePinType = (case fromPoint of Some p \<Rightarrow> getPinType p | None \<Rightarrow> Group BLUE_GROUP);
          targetPinType = (case toPoint of Some p \<Rightarrow> getPinType p | None \<Rightarrow> Group BLUE_GROUP)
      in case getConnType rt c of
           Inl e \<Rightarrow> Inl e
         | Inr connType \<Rightarrow>
             (case getIERArray rt c of
                Inl e \<Rightarrow> Inl e
              | Inr ierTypes \<Rightarrow>
                  Inr \<lparr>c_spread = c,
                       c_from = fromPoint,
                       c_to = toPoint,
                       c_sourcePos = pointCoordinates fromPoint,
                       c_targetPos = pointCoordinates toPoint,
                       c_connType = connType,
                       c_ierTypes = ierTypes,
                       c_sourcePinType = sourcePinType,
                       c_targetPinType = targetPinType,
                       c_isHub1 = connectsToHub (pointCoordinates fromPoint) (pointCoordinates toPoint),
                       c_isHub2 = connectsToHub2 (pointCoordinates fromPoint) (pointCoordinates toPoint)\<rparr>))"

text \<open>\<^verbatim>\<open>c => c._sourcePos && c._targetPos\<close>: an array is truthy, \<^verbatim>\<open>undefined\<close> is not.\<close>

definition hasBothPositions :: "resolved \<Rightarrow> bool" where
  "hasBothPositions c \<longleftrightarrow> c_sourcePos c \<noteq> None \<and> c_targetPos c \<noteq> None"

text \<open>\<^verbatim>\<open>processedConnections = connectionsJson.filter(...).map(...).filter(...)\<close>\<close>

definition processConnections ::
  "runtime \<Rightarrow> (string \<rightharpoonup> feature) \<Rightarrow> json list \<Rightarrow> error + resolved list" where
  "processConnections rt pointMap connectionsJson =
     (case filterE (keepConnection rt pointMap) connectionsJson of
        Inl e \<Rightarrow> Inl e
      | Inr kept \<Rightarrow>
          (case mapE (resolveConnection rt pointMap) kept of
             Inl e \<Rightarrow> Inl e
           | Inr mapped \<Rightarrow> Inr (filter hasBothPositions mapped)))"

section \<open>Connection aggregator\<close>

record aggregated =
  a_from :: "feature option"
  a_to :: "feature option"
  a_sourcePos :: "real list option"
  a_targetPos :: "real list option"
  a_connTypes :: "string list"
  a_ierTypes :: "string list"
  a_count :: nat
  a_sourcePinType :: pinTypeValue
  a_targetPinType :: pinTypeValue
  a_isHub1 :: bool
  a_isHub2 :: bool

text \<open>A \<^verbatim>\<open>Set\<close> is the list of its elements in insertion order; \<^verbatim>\<open>set.add(x)\<close>.\<close>

definition setAdd :: "'a \<Rightarrow> 'a list \<Rightarrow> 'a list" where
  "setAdd x xs = (if x \<in> set xs then xs else xs @ [x])"

text \<open>
\<^verbatim>\<open>
const pos1Str = conn._sourcePos.join(',');
const pos2Str = conn._targetPos.join(',');
const key = [pos1Str, pos2Str].sort().join('|');
\<close>
  \<^verbatim>\<open>sort()\<close> orders strings by their code units; \<^verbatim>\<open>join\<close> of \<^verbatim>\<open>undefined\<close> throws.
\<close>

definition positionString :: "(real \<Rightarrow> string) \<Rightarrow> real list \<Rightarrow> string" where
  "positionString ns pos = join '','' (map ns pos)"

definition pairKey :: "string \<Rightarrow> string \<Rightarrow> string" where
  "pairKey pos1Str pos2Str = join ''|'' (sort [pos1Str, pos2Str])"

definition connectionKey :: "(real \<Rightarrow> string) \<Rightarrow> resolved \<Rightarrow> error + string" where
  "connectionKey ns conn =
     (case c_sourcePos conn of
        None \<Rightarrow> Inl TypeError
      | Some sourcePos \<Rightarrow>
          (case c_targetPos conn of
             None \<Rightarrow> Inl TypeError
           | Some targetPos \<Rightarrow>
               Inr (pairKey (positionString ns sourcePos) (positionString ns targetPos))))"

text \<open>The accumulator a key gets when it is first seen, and the update every member makes.\<close>

definition newAggregate :: "resolved \<Rightarrow> aggregated" where
  "newAggregate conn =
     \<lparr>a_from = c_from conn, a_to = c_to conn,
      a_sourcePos = c_sourcePos conn, a_targetPos = c_targetPos conn,
      a_connTypes = [], a_ierTypes = [], a_count = 0,
      a_sourcePinType = c_sourcePinType conn, a_targetPinType = c_targetPinType conn,
      a_isHub1 = False, a_isHub2 = False\<rparr>"

definition accumulate :: "resolved \<Rightarrow> aggregated \<Rightarrow> aggregated" where
  "accumulate conn agg =
     agg\<lparr>a_connTypes := setAdd (c_connType conn) (a_connTypes agg),
         a_ierTypes := fold setAdd (c_ierTypes conn) (a_ierTypes agg),
         a_count := a_count agg + 1,
         a_isHub1 := a_isHub1 agg \<or> c_isHub1 conn,
         a_isHub2 := a_isHub2 agg \<or> c_isHub2 conn\<rparr>"

text \<open>\<^verbatim>\<open>aggregatedConnectionsMap\<close> is the list of its entries in insertion order. One turn
  of \<^verbatim>\<open>processedConnections.forEach\<close>: the entry of the key is created if the map has
  none, then updated.\<close>

definition aggregateStep ::
  "string \<Rightarrow> resolved \<Rightarrow> (string \<times> aggregated) list \<Rightarrow> (string \<times> aggregated) list" where
  "aggregateStep key conn m =
     (let m1 = (if key \<in> fst ` set m then m else m @ [(key, newAggregate conn)])
      in map (\<lambda>(k, agg). if k = key then (k, accumulate conn agg) else (k, agg)) m1)"

fun aggregateLoop ::
  "(real \<Rightarrow> string) \<Rightarrow> (string \<times> aggregated) list \<Rightarrow> resolved list
     \<Rightarrow> error + (string \<times> aggregated) list" where
  "aggregateLoop ns m [] = Inr m"
| "aggregateLoop ns m (conn # conns) =
     (case connectionKey ns conn of
        Inl e \<Rightarrow> Inl e
      | Inr key \<Rightarrow> aggregateLoop ns (aggregateStep key conn m) conns)"

text \<open>\<^verbatim>\<open>aggregatedConnections = Array.from(aggregatedConnectionsMap.values()).map(...)\<close>; the
  sets are already lists here.\<close>

definition aggregateConnections ::
  "(real \<Rightarrow> string) \<Rightarrow> resolved list \<Rightarrow> error + aggregated list" where
  "aggregateConnections ns conns =
     (case aggregateLoop ns [] conns of Inl e \<Rightarrow> Inl e | Inr m \<Rightarrow> Inr (map snd m))"

section \<open>Co-location grouper\<close>

text \<open>A pin is a point with the fields preprocessing attaches to it.\<close>

record pin =
  pin_feature :: feature
  pin_pinType :: pinTypeValue
  pin_labelOffset :: "(real \<times> real) option"

text \<open>\<^verbatim>\<open>processedPins = allPoints.map(p => { p._pinType = getPinType(p); return p; })\<close>\<close>

definition toPin :: "feature \<Rightarrow> pin" where
  "toPin p = \<lparr>pin_feature = p, pin_pinType = getPinType p, pin_labelOffset = None\<rparr>"

text \<open>\<^verbatim>\<open>p.geometry.coordinates.join(',')\<close>: a nested array is joined with commas at every
  level, and \<^verbatim>\<open>join\<close> of the missing \<^verbatim>\<open>coordinates\<close> of a collection throws.\<close>

fun coordString :: "(real \<Rightarrow> string) \<Rightarrow> coord \<Rightarrow> string" where
  "coordString ns (CNum x) = ns x"
| "coordString ns (CArr xs) = join '','' (map (coordString ns) xs)"

definition pinCoords :: "(real \<Rightarrow> string) \<Rightarrow> pin \<Rightarrow> error + string" where
  "pinCoords ns p =
     (case f_geometry (pin_feature p) of
        Point coordinates \<Rightarrow> Inr (join '','' (map ns coordinates))
      | Nested coordinates \<Rightarrow> Inr (join '','' (map (coordString ns) coordinates))
      | GeometryCollection \<Rightarrow> Inl TypeError)"

text \<open>
\<^verbatim>\<open>
const pinsByLocation = new Map<string, any[]>();
processedPins.forEach(p => {
    const coords = p.geometry.coordinates.join(',');
    if (!pinsByLocation.has(coords)) {
        pinsByLocation.set(coords, []);
    }
    pinsByLocation.get(coords)!.push(p);
});
\<close>
\<close>

definition groupStep ::
  "string \<Rightarrow> pin \<Rightarrow> (string \<times> pin list) list \<Rightarrow> (string \<times> pin list) list" where
  "groupStep coords p m =
     (let m1 = (if coords \<in> fst ` set m then m else m @ [(coords, [])])
      in map (\<lambda>(k, pins). if k = coords then (k, pins @ [p]) else (k, pins)) m1)"

fun groupLoop ::
  "(real \<Rightarrow> string) \<Rightarrow> (string \<times> pin list) list \<Rightarrow> pin list
     \<Rightarrow> error + (string \<times> pin list) list" where
  "groupLoop ns m [] = Inr m"
| "groupLoop ns m (p # ps) =
     (case pinCoords ns p of
        Inl e \<Rightarrow> Inl e
      | Inr coords \<Rightarrow> groupLoop ns (groupStep coords p m) ps)"

text \<open>An element of \<^verbatim>\<open>overlappingPins\<close> (the icon it also carries is not modelled).\<close>

record pinGroup =
  g_firstPin :: "pin option"
  g_count :: nat
  g_pinTypes :: "pinTypeValue list"
  g_originalPins :: "pin list"

definition toPinGroup :: "pin list \<Rightarrow> pinGroup" where
  "toPinGroup pins =
     \<lparr>g_firstPin = (case pins of [] \<Rightarrow> None | firstPin # _ \<Rightarrow> Some firstPin),
      g_count = length pins,
      g_pinTypes = map pin_pinType pins,
      g_originalPins = pins\<rparr>"

text \<open>
\<^verbatim>\<open>
overlappingPins.forEach(pinGroup => {
    if (pinGroup.count > 1) {
        const numSlices = pinGroup.count;
        const sliceAngle = 360 / numSlices;
        const offsetRadius = 45;
        pinGroup.originalPins.forEach((p: any, i: number) => {
            const midAngle = -90 + (i * sliceAngle) + (sliceAngle / 2);
            const midAngleRad = midAngle * (Math.PI / 180);
            const offsetX = offsetRadius * Math.cos(midAngleRad);
            const offsetY = offsetRadius * Math.sin(midAngleRad);
            p._labelOffset = [offsetX, offsetY];
        });
    }
});
\<close>
  in the arithmetic of doubles. The count and the index are lengths and positions of an
  array, which are below \<open>2^32\<close> and so doubles themselves.
\<close>

definition sliceAngle :: "nat \<Rightarrow> real" where
  "sliceAngle numSlices = fdiv 360 (real numSlices)"

definition midAngle :: "nat \<Rightarrow> nat \<Rightarrow> real" where
  "midAngle numSlices i =
     fadd (fadd (- 90) (fmul (real i) (sliceAngle numSlices))) (fdiv (sliceAngle numSlices) 2)"

definition offsetRadius :: real where
  "offsetRadius = 45"

definition labelOffset :: "runtime \<Rightarrow> nat \<Rightarrow> nat \<Rightarrow> real \<times> real" where
  "labelOffset rt numSlices i =
     (let midAngleRad = fmul (midAngle numSlices i) (fdiv MATH_PI 180)
      in (fmul offsetRadius (mathCos rt midAngleRad), fmul offsetRadius (mathSin rt midAngleRad)))"

definition assignLabelOffsets :: "runtime \<Rightarrow> pinGroup \<Rightarrow> pinGroup" where
  "assignLabelOffsets rt pinGroup =
     (if g_count pinGroup > 1 then
        pinGroup\<lparr>g_originalPins :=
          map (\<lambda>(p, i). p\<lparr>pin_labelOffset := Some (labelOffset rt (g_count pinGroup) i)\<rparr>)
            (zip (g_originalPins pinGroup) [0 ..< length (g_originalPins pinGroup)])\<rparr>
      else pinGroup)"

text \<open>The groups of \<^verbatim>\<open>overlappingPins\<close> after the label offsets are assigned, from the
  points of the source data.\<close>

definition groupPins :: "runtime \<Rightarrow> feature list \<Rightarrow> error + pinGroup list" where
  "groupPins rt allPoints =
     (case groupLoop (numberToString rt) [] (map toPin allPoints) of
        Inl e \<Rightarrow> Inl e
      | Inr pinsByLocation \<Rightarrow>
          Inr (map (\<lambda>(coords, pins). assignLabelOffsets rt (toPinGroup pins)) pinsByLocation))"

section \<open>Preprocessing\<close>

record preprocessed =
  processedConnections :: "resolved list"
  processedPins :: "pin list"
  overlappingPins :: "pinGroup list"
  aggregatedConnections :: "aggregated list"

text \<open>\<^verbatim>\<open>preprocessData\<close> on the two parsed record lists: the connections, then the pin
  groups, then the aggregates; \<^verbatim>\<open>processedPins\<close> is last flattened from the groups.\<close>

definition preprocessData ::
  "runtime \<Rightarrow> json list \<Rightarrow> feature list \<Rightarrow> error + preprocessed" where
  "preprocessData rt connectionsJson allPoints =
     (case processConnections rt (buildPointMap allPoints) connectionsJson of
        Inl e \<Rightarrow> Inl e
      | Inr conns \<Rightarrow>
          (case groupPins rt allPoints of
             Inl e \<Rightarrow> Inl e
           | Inr groups \<Rightarrow>
               (case aggregateConnections (numberToString rt) conns of
                  Inl e \<Rightarrow> Inl e
                | Inr aggs \<Rightarrow>
                    Inr \<lparr>processedConnections = conns,
                         processedPins = concat (map g_originalPins groups),
                         overlappingPins = groups,
                         aggregatedConnections = aggs\<rparr>)))"

section \<open>Visibility engine\<close>

text \<open>The filter state the layers read: three sets and five flags.\<close>

record filterState =
  activeTypes :: "string list"
  activePointTypes :: "PointType list"
  activeIerTypes :: "string list"
  hideHubConnections :: bool
  hideHub2Connections :: bool
  showAggregatedConnections :: bool
  showConnectionLabels :: bool
  showPinLabels :: bool

text \<open>\<^verbatim>\<open>set.has(x)\<close>.\<close>

definition has :: "'a list \<Rightarrow> 'a \<Rightarrow> bool" where
  "has s x \<longleftrightarrow> x \<in> set s"

text \<open>\<^verbatim>\<open>activePointTypes.has(v)\<close> for the value \<open>v\<close> of a pin type: the set holds groups only.\<close>

definition hasPinType :: "PointType list \<Rightarrow> pinTypeValue \<Rightarrow> bool" where
  "hasPinType s v \<longleftrightarrow> has (map Group s) v"

text \<open>
\<^verbatim>\<open>
const getConnectionFilterValue = (d: any) => {
    const sourcePinTypeVisible = activePointTypes.has(d._sourcePinType);
    const targetPinTypeVisible = activePointTypes.has(d._targetPinType);
    const ierVisible = activeIerTypes.size === 0 || d._ierTypes.some((ierType: string) => activeIerTypes.has(ierType));
    return (
        activeTypes.has(d._connType) &&
        (!hideHubConnections || !d._isHub1) &&
        (!hideHub2Connections || !d._isHub2) &&
        sourcePinTypeVisible && targetPinTypeVisible && ierVisible
    ) ? 1 : 0;
};
\<close>
  The layer shows the records whose value is \<open>1\<close> (\<^verbatim>\<open>filterRange: [1, 1]\<close>).
\<close>

definition getConnectionFilterValue :: "filterState \<Rightarrow> resolved \<Rightarrow> nat" where
  "getConnectionFilterValue fs d =
     (let sourcePinTypeVisible = hasPinType (activePointTypes fs) (c_sourcePinType d);
          targetPinTypeVisible = hasPinType (activePointTypes fs) (c_targetPinType d);
          ierVisible = (length (activeIerTypes fs) = 0
                        \<or> list_ex (\<lambda>ierType. has (activeIerTypes fs) ierType) (c_ierTypes d))
      in if has (activeTypes fs) (c_connType d)
            \<and> (\<not> hideHubConnections fs \<or> \<not> c_isHub1 d)
            \<and> (\<not> hideHub2Connections fs \<or> \<not> c_isHub2 d)
            \<and> sourcePinTypeVisible \<and> targetPinTypeVisible \<and> ierVisible
         then 1 else 0)"

definition isConnectionVisible :: "filterState \<Rightarrow> resolved \<Rightarrow> bool" where
  "isConnectionVisible fs d \<longleftrightarrow> getConnectionFilterValue fs d = 1"

text \<open>\<^verbatim>\<open>getFilterValue\<close> of the layer of aggregated connections.\<close>

definition getAggregatedFilterValue :: "filterState \<Rightarrow> aggregated \<Rightarrow> nat" where
  "getAggregatedFilterValue fs d =
     (let anyConnTypeActive = list_ex (\<lambda>type. has (activeTypes fs) type) (a_connTypes d);
          sourcePinTypeVisible = hasPinType (activePointTypes fs) (a_sourcePinType d);
          targetPinTypeVisible = hasPinType (activePointTypes fs) (a_targetPinType d);
          ierVisible = (length (activeIerTypes fs) = 0
                        \<or> list_ex (\<lambda>ierType. has (activeIerTypes fs) ierType) (a_ierTypes d))
      in if anyConnTypeActive
            \<and> (\<not> hideHubConnections fs \<or> \<not> a_isHub1 d)
            \<and> (\<not> hideHub2Connections fs \<or> \<not> a_isHub2 d)
            \<and> sourcePinTypeVisible \<and> targetPinTypeVisible \<and> ierVisible
         then 1 else 0)"

definition isAggregateVisible :: "filterState \<Rightarrow> aggregated \<Rightarrow> bool" where
  "isAggregateVisible fs d \<longleftrightarrow> getAggregatedFilterValue fs d = 1"

text \<open>
\<^verbatim>\<open>
function filterKey() {
    return [
        Array.from(activeTypes).sort().join(","),
        `hub1:${hideHubConnections ? 1 : 0}`,
        `hub2:${hideHub2Connections ? 1 : 0}`,
        Array.from(activePointTypes).sort().join(","),
        Array.from(activeIerTypes).sort().join(","),
        `aggregated:${showAggregatedConnections ? 1 : 0}`,
    ].join("|") + `|connLabels:${showConnectionLabels ? 1 : 0}` +
      `|pinLabels:${showPinLabels ? 1 : 0}`;
}
\<close>
\<close>

definition flag :: "bool \<Rightarrow> string" where
  "flag b = (if b then ''1'' else ''0'')"

definition filterKey :: "filterState \<Rightarrow> string" where
  "filterKey fs =
     join ''|''
       [join '','' (sort (activeTypes fs)),
        ''hub1:'' @ flag (hideHubConnections fs),
        ''hub2:'' @ flag (hideHub2Connections fs),
        join '','' (sort (map pointTypeName (activePointTypes fs))),
        join '','' (sort (activeIerTypes fs)),
        ''aggregated:'' @ flag (showAggregatedConnections fs)]
     @ ''|connLabels:'' @ flag (showConnectionLabels fs)
     @ ''|pinLabels:'' @ flag (showPinLabels fs)"

section \<open>The filter controls\<close>

text \<open>The keys of the three groups of checkboxes (\<^verbatim>\<open>connItems\<close>, \<^verbatim>\<open>ierItems\<close> and
  \<^verbatim>\<open>PinLogic.ALL_POINT_TYPES\<close>; \<^verbatim>\<open>pinItems\<close> has a checkbox for every \<^verbatim>\<open>PointType\<close>).\<close>

definition connItemKeys :: "string list" where
  "connItemKeys = [''N'', ''C'', ''RT'', ''HF'', ''TR'', ''SAT'', ''HF L'', ''U L'', ''SL'']"

definition ierItemKeys :: "string list" where
  "ierItemKeys = [''LOCATION'', ''LOGISTICS'', ''NRP'', ''SIT'', ''MESSAGE'', ''DEFAULT'']"

definition ALL_POINT_TYPES :: "PointType list" where
  "ALL_POINT_TYPES =
     [RED_GROUP, TURQUOISE_GROUP, YELLOW_GROUP, GREEN_GROUP,
      PURPLE_GROUP, ORANGE_GROUP, BLUE_GROUP, VIOLET_GROUP,
      PINK_GROUP, WHITE_GROUP, MAGENTA_GROUP, OKC_GROUP, GREY_GROUP]"

text \<open>The state the page starts with: the three sets empty, every flag off.\<close>

definition initialFilterState :: filterState where
  "initialFilterState =
     \<lparr>activeTypes = [], activePointTypes = [], activeIerTypes = [],
      hideHubConnections = False, hideHub2Connections = False,
      showAggregatedConnections = False, showConnectionLabels = False,
      showPinLabels = False\<rparr>"

text \<open>\<^verbatim>\<open>set.delete(x)\<close>, and the \<^verbatim>\<open>All / None\<close> buttons: \<^verbatim>\<open>const isAllActive = set.size ===
  items.length; set.clear(); if (!isAllActive) items.forEach(item => set.add(item.key));\<close>\<close>

definition setDelete :: "'a \<Rightarrow> 'a list \<Rightarrow> 'a list" where
  "setDelete x xs = removeAll x xs"

definition allOrNone :: "'a list \<Rightarrow> 'a list \<Rightarrow> 'a list" where
  "allOrNone items s = (if length s = length items then [] else fold setAdd items [])"

text \<open>Everything that writes the filter state: the listeners of
  \<^verbatim>\<open>addMultiFilterControls\<close> and the three steps of \<^verbatim>\<open>runDemonstration\<close>.\<close>

datatype event =
    AllConnButton
  | Hub1Checkbox bool
  | Hub2Checkbox bool
  | ConnCheckbox string bool
  | ConnLabelsButton
  | AllPinsButton
  | AllIerButton
  | IerCheckbox string bool
  | AggregatedCheckbox bool
  | PinLabelsButton
  | PinCheckbox PointType bool
  | DemoStep1
  | DemoStep2
  | DemoStep3

fun handle :: "event \<Rightarrow> filterState \<Rightarrow> filterState" where
  "handle AllConnButton s = s\<lparr>activeTypes := allOrNone connItemKeys (activeTypes s)\<rparr>"
| "handle (Hub1Checkbox checked) s = s\<lparr>hideHubConnections := checked\<rparr>"
| "handle (Hub2Checkbox checked) s = s\<lparr>hideHub2Connections := checked\<rparr>"
| "handle (ConnCheckbox key checked) s =
     s\<lparr>activeTypes := (if checked then setAdd key (activeTypes s)
                        else setDelete key (activeTypes s))\<rparr>"
| "handle ConnLabelsButton s = s\<lparr>showConnectionLabels := \<not> showConnectionLabels s\<rparr>"
| "handle AllPinsButton s =
     s\<lparr>activePointTypes := allOrNone ALL_POINT_TYPES (activePointTypes s)\<rparr>"
| "handle AllIerButton s = s\<lparr>activeIerTypes := allOrNone ierItemKeys (activeIerTypes s)\<rparr>"
| "handle (IerCheckbox key checked) s =
     s\<lparr>activeIerTypes := (if checked then setAdd key (activeIerTypes s)
                           else setDelete key (activeIerTypes s))\<rparr>"
| "handle (AggregatedCheckbox checked) s = s\<lparr>showAggregatedConnections := checked\<rparr>"
| "handle PinLabelsButton s = s\<lparr>showPinLabels := \<not> showPinLabels s\<rparr>"
| "handle (PinCheckbox key checked) s =
     s\<lparr>activePointTypes := (if checked then setAdd key (activePointTypes s)
                             else setDelete key (activePointTypes s))\<rparr>"
| "handle DemoStep1 s = s\<lparr>activeTypes := [], activePointTypes := setAdd OKC_GROUP []\<rparr>"
| "handle DemoStep2 s =
     s\<lparr>activePointTypes := setAdd RED_GROUP (activePointTypes s),
       activeTypes := setAdd ''RT'' (activeTypes s)\<rparr>"
| "handle DemoStep3 s =
     s\<lparr>activePointTypes := setAdd BLUE_GROUP (activePointTypes s),
       activeTypes := setAdd ''TR'' (activeTypes s)\<rparr>"

text \<open>A checkbox exists for the keys of its group only.\<close>

fun possible :: "event \<Rightarrow> bool" where
  "possible (ConnCheckbox key checked) = (key \<in> set connItemKeys)"
| "possible (IerCheckbox key checked) = (key \<in> set ierItemKeys)"
| "possible _ = True"

inductive reachable :: "filterState \<Rightarrow> bool" where
  start: "reachable initialFilterState"
| step: "reachable s \<Longrightarrow> possible ev \<Longrightarrow> reachable (handle ev s)"

section \<open>Relations the properties are stated with\<close>

text \<open>Two filter states with the same sets and the same flags.\<close>

definition sameFilterState :: "filterState \<Rightarrow> filterState \<Rightarrow> bool" where
  "sameFilterState s s' \<longleftrightarrow>
     set (activeTypes s) = set (activeTypes s')
     \<and> set (activePointTypes s) = set (activePointTypes s')
     \<and> set (activeIerTypes s) = set (activeIerTypes s')
     \<and> hideHubConnections s = hideHubConnections s'
     \<and> hideHub2Connections s = hideHub2Connections s'
     \<and> showAggregatedConnections s = showAggregatedConnections s'
     \<and> showConnectionLabels s = showConnectionLabels s'
     \<and> showPinLabels s = showPinLabels s'"

text \<open>\<open>s'\<close> has every active category, group and tag of \<open>s\<close>, and the same hub flags.\<close>

definition enablesMore :: "filterState \<Rightarrow> filterState \<Rightarrow> bool" where
  "enablesMore s s' \<longleftrightarrow>
     set (activeTypes s) \<subseteq> set (activeTypes s')
     \<and> set (activePointTypes s) \<subseteq> set (activePointTypes s')
     \<and> set (activeIerTypes s) \<subseteq> set (activeIerTypes s')
     \<and> hideHubConnections s = hideHubConnections s'
     \<and> hideHub2Connections s = hideHub2Connections s'"

text \<open>Two connections between the same unordered pair of coordinate arrays.\<close>

definition sameEndpoints :: "resolved \<Rightarrow> resolved \<Rightarrow> bool" where
  "sameEndpoints c c' \<longleftrightarrow>
     (c_sourcePos c' = c_sourcePos c \<and> c_targetPos c' = c_targetPos c)
     \<or> (c_sourcePos c' = c_targetPos c \<and> c_targetPos c' = c_sourcePos c)"

text \<open>The key of an aggregate, from the positions it carries.\<close>

definition aggregateKey :: "(real \<Rightarrow> string) \<Rightarrow> aggregated \<Rightarrow> error + string" where
  "aggregateKey ns a =
     (case a_sourcePos a of
        None \<Rightarrow> Inl TypeError
      | Some sourcePos \<Rightarrow>
          (case a_targetPos a of
             None \<Rightarrow> Inl TypeError
           | Some targetPos \<Rightarrow>
               Inr (pairKey (positionString ns sourcePos) (positionString ns targetPos))))"

text \<open>The members of a key: the connections of the list that have it.\<close>

definition membersOf :: "(real \<Rightarrow> string) \<Rightarrow> error + string \<Rightarrow> resolved list \<Rightarrow> resolved list" where
  "membersOf ns key conns = filter (\<lambda>c. connectionKey ns c = key) conns"

text \<open>The connection at index \<open>i\<close> is the first of the list with its key.\<close>

definition firstOfKey :: "(real \<Rightarrow> string) \<Rightarrow> resolved list \<Rightarrow> nat \<Rightarrow> bool" where
  "firstOfKey ns conns i \<longleftrightarrow>
     (\<forall>j < i. connectionKey ns (conns ! j) \<noteq> connectionKey ns (conns ! i))"

text \<open>Two connections with the same coordinates, category, tags and hub flags.\<close>

definition agreeButEndpoints :: "resolved \<Rightarrow> resolved \<Rightarrow> bool" where
  "agreeButEndpoints c c' \<longleftrightarrow>
     c_sourcePos c = c_sourcePos c' \<and> c_targetPos c = c_targetPos c'
     \<and> c_connType c = c_connType c' \<and> c_ierTypes c = c_ierTypes c'
     \<and> c_isHub1 c = c_isHub1 c' \<and> c_isHub2 c = c_isHub2 c'"

section \<open>Invariants and relations of the proofs\<close>

text \<open>Two aggregates with the same fields under the filter of the aggregated layer, and
  two maps with the same keys in the same order and such aggregates.\<close>

definition sameFilterFields :: "aggregated \<Rightarrow> aggregated \<Rightarrow> bool" where
  "sameFilterFields a a' \<longleftrightarrow>
     a_connTypes a = a_connTypes a' \<and> a_ierTypes a = a_ierTypes a'
     \<and> a_isHub1 a = a_isHub1 a' \<and> a_isHub2 a = a_isHub2 a'
     \<and> a_sourcePinType a = a_sourcePinType a' \<and> a_targetPinType a = a_targetPinType a'"

definition entriesAgree ::
  "(string \<times> aggregated) list \<Rightarrow> (string \<times> aggregated) list \<Rightarrow> bool" where
  "entriesAgree m m' \<longleftrightarrow>
     list_all2 (\<lambda>e e'. fst e = fst e' \<and> sameFilterFields (snd e) (snd e')) m m'"

definition sameGroups :: "resolved \<Rightarrow> resolved \<Rightarrow> bool" where
  "sameGroups c c' \<longleftrightarrow>
     c_sourcePinType c = c_sourcePinType c' \<and> c_targetPinType c = c_targetPinType c'"

text \<open>The first connection of every key not yet in \<open>seen\<close> has the same endpoint groups
  in both lists.\<close>

fun firstsAgree ::
  "(real \<Rightarrow> string) \<Rightarrow> (error + string) set \<Rightarrow> resolved list \<Rightarrow> resolved list \<Rightarrow> bool" where
  "firstsAgree ns seen (c # cs) (c' # cs') =
     ((connectionKey ns c \<notin> seen \<longrightarrow> sameGroups c c')
      \<and> firstsAgree ns (insert (connectionKey ns c) seen) cs cs')"
| "firstsAgree ns seen _ _ = True"

text \<open>What holds of the map after the connections \<open>seen\<close> have been processed.\<close>

definition aggregateInv ::
  "(real \<Rightarrow> string) \<Rightarrow> resolved list \<Rightarrow> (string \<times> aggregated) list \<Rightarrow> bool" where
  "aggregateInv ns seen m \<longleftrightarrow>
     distinct (map fst m)
     \<and> fst ` set m = {k. \<exists>c \<in> set seen. connectionKey ns c = Inr k}
     \<and> (\<forall>k a. map_of m k = Some a \<longrightarrow>
           aggregateKey ns a = Inr k
           \<and> a_count a = length (membersOf ns (Inr k) seen)
           \<and> (\<exists>i < length seen. firstOfKey ns seen i
                 \<and> connectionKey ns (seen ! i) = Inr k
                 \<and> a_from a = c_from (seen ! i) \<and> a_to a = c_to (seen ! i)
                 \<and> a_sourcePinType a = c_sourcePinType (seen ! i)
                 \<and> a_targetPinType a = c_targetPinType (seen ! i)))"

text \<open>What holds of \<^verbatim>\<open>pinsByLocation\<close> after the pins \<open>seen\<close> have been grouped.\<close>

definition groupInv ::
  "(real \<Rightarrow> string) \<Rightarrow> pin list \<Rightarrow> (string \<times> pin list) list \<Rightarrow> bool" where
  "groupInv ns seen m \<longleftrightarrow>
     distinct (map fst m)
     \<and> fst ` set m = {k. \<exists>p \<in> set seen. pinCoords ns p = Inr k}
     \<and> (\<forall>k pins. map_of m k = Some pins \<longrightarrow>
           pins = filter (\<lambda>p. pinCoords ns p = Inr k) seen)"

text \<open>A key that is not empty and holds neither separator of \<^verbatim>\<open>filterKey\<close>.\<close>

definition plainKey :: "string \<Rightarrow> bool" where
  "plainKey k \<longleftrightarrow> k \<noteq> [] \<and> CHR '','' \<notin> set k \<and> CHR ''|'' \<notin> set k"

text \<open>The sets of a filter state hold no element twice, and only keys of the checkboxes.\<close>

definition wellFormedFilter :: "filterState \<Rightarrow> bool" where
  "wellFormedFilter s \<longleftrightarrow>
     distinct (activeTypes s) \<and> set (activeTypes s) \<subseteq> set connItemKeys
     \<and> distinct (activePointTypes s)
     \<and> distinct (activeIerTypes s) \<and> set (activeIerTypes s) \<subseteq> set ierItemKeys"

section \<open>Sample data\<close>

text \<open>A runtime for closed instances: integers rendered in decimal digits, strings of
  ASCII characters, and for the cosine and the sine the first thirty terms of their power
  series, rounded to a double. \<open>seriesSum n k t x\<close> adds \<open>n\<close> terms from the term \<open>t\<close> of
  degree \<open>k\<close>, each being the one before times \<open>- x\<^sup>2 / ((k + 1) * (k + 2))\<close>.\<close>

fun seriesSum :: "nat \<Rightarrow> nat \<Rightarrow> real \<Rightarrow> real \<Rightarrow> real" where
  "seriesSum 0 k t x = 0"
| "seriesSum (Suc n) k t x =
     t + seriesSum n (k + 2) (- (t * x * x) / (real (k + 1) * real (k + 2))) x"

definition sampleRuntime :: runtime where
  "sampleRuntime =
     \<lparr>numberToString = integerString, trim = asciiTrim, toUpperCase = asciiUpperCase,
      mathCos = (\<lambda>x. binary64 (seriesSum 30 0 1 x)),
      mathSin = (\<lambda>x. binary64 (seriesSum 30 1 x x))\<rparr>"

text \<open>A resolved connection and a filter state for closed instances of the properties,
  with the tags left open.\<close>

definition sampleResolved :: "string list \<Rightarrow> resolved" where
  "sampleResolved tags =
     \<lparr>c_spread = JObj [], c_from = None, c_to = None,
      c_sourcePos = Some [1, 2], c_targetPos = Some [3, 4],
      c_connType = ''RT'', c_ierTypes = tags,
      c_sourcePinType = Group RED_GROUP, c_targetPinType = Group OKC_GROUP,
      c_isHub1 = False, c_isHub2 = False\<rparr>"

definition sampleFilter :: "string list \<Rightarrow> filterState" where
  "sampleFilter tags =
     \<lparr>activeTypes = [''RT''], activePointTypes = [OKC_GROUP, RED_GROUP],
      activeIerTypes = tags,
      hideHubConnections = False, hideHub2Connections = False,
      showAggregatedConnections = False, showConnectionLabels = False,
      showPinLabels = False\<rparr>"

text \<open>Points and raw connections for closed instances: two named sources, a target on
  each side of longitude \<open>-90\<close>, a point without a name on the eastern target, and a
  feature that is not a point.\<close>

definition pointFeature :: "string \<Rightarrow> real list \<Rightarrow> feature" where
  "pointFeature name coordinates =
     \<lparr>f_name = None, f_properties = Some \<lparr>p_name = Some name\<rparr>,
      f_geometry = Point coordinates\<rparr>"

definition samplePoints :: "feature list" where
  "samplePoints =
     [pointFeature ''FOB1'' [-100, 40],
      pointFeature ''Ohio Pin'' [-83, 40],
      pointFeature ''West'' [-100, 35],
      pointFeature ''East'' [-80, 35],
      pointFeature [] [-80, 35],
      \<lparr>f_name = Some ''Road'', f_properties = None,
       f_geometry = Nested [CArr [CNum 1, CNum 2], CArr [CNum 3, CNum 4]]\<rparr>]"

definition rawConnection :: "string \<Rightarrow> string \<Rightarrow> string \<Rightarrow> json" where
  "rawConnection connType fromName toName =
     JObj [(''Connection_type'', JStr connType), (''from'', JStr fromName), (''to'', JStr toName)]"

definition sampleConnections :: "json list" where
  "sampleConnections =
     [rawConnection ''TR'' ''FOB1'' ''West'',
      rawConnection ''TR'' ''FOB1'' ''East'',
      rawConnection ''RT'' ''FOB1'' ''Nowhere'',
      rawConnection ''RT'' ''Road'' ''East'',
      rawConnection ''RT'' [] ''East'',
      rawConnection ''n_type'' ''East'' ''FOB1'']"

text \<open>Resolved connections for closed instances: the first and the third join the same
  two coordinate pairs in opposite directions; the second list differs from the first in
  the source group of the third connection only.\<close>

definition sampleConn :: "real list \<Rightarrow> real list \<Rightarrow> string \<Rightarrow> PointType \<Rightarrow> resolved" where
  "sampleConn sourcePos targetPos connType sourceGroup =
     \<lparr>c_spread = JObj [], c_from = None, c_to = None,
      c_sourcePos = Some sourcePos, c_targetPos = Some targetPos,
      c_connType = connType, c_ierTypes = [],
      c_sourcePinType = Group sourceGroup, c_targetPinType = Group OKC_GROUP,
      c_isHub1 = False, c_isHub2 = False\<rparr>"

definition sampleConns :: "resolved list" where
  "sampleConns =
     [sampleConn [1, 2] [3, 4] ''RT'' RED_GROUP,
      sampleConn [5, 6] [7, 8] ''TR'' YELLOW_GROUP,
      sampleConn [3, 4] [1, 2] ''N'' BLUE_GROUP]"

definition sampleConns' :: "resolved list" where
  "sampleConns' =
     [sampleConn [1, 2] [3, 4] ''RT'' RED_GROUP,
      sampleConn [5, 6] [7, 8] ''TR'' YELLOW_GROUP,
      sampleConn [3, 4] [1, 2] ''N'' GREEN_GROUP]"

text \<open>Filter states for closed instances: two categories enabled in either order, and the
  first hub hidden.\<close>

definition sampleState1 :: filterState where
  "sampleState1 = handle (ConnCheckbox ''RT'' True) (handle (ConnCheckbox ''N'' True) initialFilterState)"

definition sampleState2 :: filterState where
  "sampleState2 = handle (ConnCheckbox ''N'' True) (handle (ConnCheckbox ''RT'' True) initialFilterState)"

definition sampleState3 :: filterState where
  "sampleState3 = handle (Hub1Checkbox True) sampleState1"

section \<open>Properties of the classifier\<close>

lemma nullish_iff: "nullish v \<longleftrightarrow> v = JUndefined \<or> v = JNull"
  by (cases v) simp_all

lemma error_eq [simp]: "(e :: error) = TypeError"
  by (cases e)

lemma jsString_stringifiable:
  "((\<exists>s. jsString ns v = Inr s) \<longleftrightarrow> stringifiable v)
   \<and> ((\<exists>ss. elemStrings ns vs = Inr ss) \<longleftrightarrow> (\<forall>x \<in> set vs. stringifiable x))"
proof -
  have "((\<exists>s. jsString ns v = Inr s) \<longleftrightarrow> stringifiable v)"
    and "((\<exists>ss. elemStrings ns vs = Inr ss) \<longleftrightarrow> (\<forall>x \<in> set vs. stringifiable x))"
  proof (induction ns v and ns vs rule: jsString_elemStrings.induct)
    case (9 ns x xs)
    then show ?case
      by (cases x) (auto split: sum.splits)
  qed (auto split: sum.splits)
  then show ?thesis by simp
qed

lemma mapE_cases:
  "(\<exists>ys. mapE f xs = Inr ys \<and> map f xs = map Inr ys)
   \<or> (mapE f xs = Inl TypeError \<and> (\<exists>x \<in> set xs. f x = Inl TypeError))"
proof (induction xs)
  case Nil
  show ?case by simp
next
  case (Cons x xs)
  show ?case
  proof (cases "f x")
    case (Inl e)
    then show ?thesis by simp
  next
    case (Inr y)
    from Cons show ?thesis
    proof
      assume "\<exists>ys. mapE f xs = Inr ys \<and> map f xs = map Inr ys"
      then obtain ys where "mapE f xs = Inr ys" "map f xs = map Inr ys" by blast
      with Inr have "mapE f (x # xs) = Inr (y # ys) \<and> map f (x # xs) = map Inr (y # ys)"
        by simp
      then show ?thesis by blast
    next
      assume "mapE f xs = Inl TypeError \<and> (\<exists>x \<in> set xs. f x = Inl TypeError)"
      with Inr show ?thesis by simp
    qed
  qed
qed

lemma mapE_Inr_iff: "mapE f xs = Inr ys \<longleftrightarrow> map f xs = map Inr ys"
proof
  assume "mapE f xs = Inr ys"
  with mapE_cases [of f xs] show "map f xs = map Inr ys" by auto
next
  assume m: "map f xs = map Inr ys"
  have "\<not> (\<exists>x \<in> set xs. f x = Inl TypeError)"
  proof
    assume "\<exists>x \<in> set xs. f x = Inl TypeError"
    then have "Inl TypeError \<in> set (map f xs)" by force
    with m show False by auto
  qed
  with mapE_cases [of f xs] obtain zs where z: "mapE f xs = Inr zs" "map f xs = map Inr zs"
    by blast
  with m have "map (Inr :: _ \<Rightarrow> error + _) zs = map Inr ys" by simp
  then have "zs = ys" by (simp add: inj_map_eq_map)
  with z show "mapE f xs = Inr ys" by simp
qed

lemma mapE_Inl_iff: "mapE f xs = Inl TypeError \<longleftrightarrow> (\<exists>x \<in> set xs. f x = Inl TypeError)"
proof
  assume "mapE f xs = Inl TypeError"
  with mapE_cases [of f xs] show "\<exists>x \<in> set xs. f x = Inl TypeError" by auto
next
  assume e: "\<exists>x \<in> set xs. f x = Inl TypeError"
  show "mapE f xs = Inl TypeError"
  proof (rule ccontr)
    assume "mapE f xs \<noteq> Inl TypeError"
    with mapE_cases [of f xs] obtain ys where "map f xs = map Inr ys" by blast
    moreover from e have "Inl TypeError \<in> set (map f xs)" by force
    ultimately show False by auto
  qed
qed

lemma filterE_cases:
  "(filterE f xs = Inr (filter (\<lambda>x. f x = Inr True) xs) \<and> (\<forall>x \<in> set xs. f x \<noteq> Inl TypeError))
   \<or> (filterE f xs = Inl TypeError \<and> (\<exists>x \<in> set xs. f x = Inl TypeError))"
proof (induction xs)
  case Nil
  show ?case by simp
next
  case (Cons x xs)
  show ?case
  proof (cases "f x")
    case (Inl e)
    then show ?thesis by simp
  next
    case (Inr b)
    with Cons show ?thesis by (cases b) auto
  qed
qed

lemma orElse_typeField:
  "orElse (orElse (getProp d ''Connection_type'') (getProp d ''connection_type'')) (JStr [])
     = orElse (typeField d) (JStr [])"
  by (auto simp: typeField_def getProp_def orElse_def)

lemma sampleRuntime_fields [simp]:
  "numberToString sampleRuntime = integerString"
  "trim sampleRuntime = asciiTrim"
  "toUpperCase sampleRuntime = asciiUpperCase"
  by (simp_all add: sampleRuntime_def)

text \<open>
  Claim C6 as stated fails: the classifier does not return for every record. It throws on
  a record whose type field is an object with an own member named \<^verbatim>\<open>toString\<close>, because
  \<^verbatim>\<open>String\<close> of such an object throws.
\<close>

theorem getConnType_every_record_counterexample:
  "getConnType sampleRuntime (JObj [(''Connection_type'', JObj [(''toString'', JNum 1)])])
     = Inl TypeError"
  by (simp add: getConnType_def getProp_def orElse_def)

text \<open>
  Claim C6, amended. The connection classifier reads the type field, trying the spelling
  \<^verbatim>\<open>Connection_type\<close> before \<^verbatim>\<open>connection_type\<close>, each directly and then under
  \<^verbatim>\<open>properties\<close>. For every record whose type field neither is nor contains (through
  nested arrays) an object with an own member named \<^verbatim>\<open>toString\<close>, it converts the field
  to a string (a missing field to the empty string), trims and upper-cases it with the
  runtime's \<^verbatim>\<open>trim\<close> and \<^verbatim>\<open>toUpperCase\<close>, returns \<^verbatim>\<open>N\<close> when the result is \<^verbatim>\<open>N_TYPE\<close> and
  the result itself otherwise; on every other record it throws a \<^verbatim>\<open>TypeError\<close>. A missing
  or empty field gives the empty string, and the raw value \<^verbatim>\<open>"N_TYPE"\<close> classifies to
  exactly \<^verbatim>\<open>"N"\<close>: these two read what the runtime does to the empty string and to
  \<^verbatim>\<open>"N_TYPE"\<close>, which it leaves as they are.
\<close>

theorem getConnType_amended:
  "(if stringifiable (typeField d)
    then \<exists>s. jsString (numberToString rt) (orElse (typeField d) (JStr [])) = Inr s
           \<and> getConnType rt d =
               Inr (if toUpperCase rt (trim rt s) = ''N_TYPE'' then ''N''
                    else toUpperCase rt (trim rt s))
    else getConnType rt d = Inl TypeError)
   \<and> (typeField d = JStr s \<longrightarrow>
        getConnType rt d =
          Inr (if toUpperCase rt (trim rt s) = ''N_TYPE'' then ''N''
               else toUpperCase rt (trim rt s)))
   \<and> ((nullish (typeField d) \<or> typeField d = JStr []) \<and> toUpperCase rt (trim rt []) = [] \<longrightarrow>
        getConnType rt d = Inr [])
   \<and> (toUpperCase rt (trim rt ''N_TYPE'') = ''N_TYPE'' \<longrightarrow>
        getConnType rt (JObj [(''Connection_type'', JStr ''N_TYPE'')]) = Inr ''N'')"
proof -
  let ?classify = "\<lambda>s. if toUpperCase rt (trim rt s) = ''N_TYPE'' then ''N''
                       else toUpperCase rt (trim rt s)"
  have eq: "getConnType rt d =
      (case jsString (numberToString rt) (orElse (typeField d) (JStr [])) of
         Inl e \<Rightarrow> Inl e
       | Inr s \<Rightarrow> Inr (?classify s))"
    for d
    unfolding getConnType_def Let_def orElse_typeField by (simp split: sum.splits)
  have str: "stringifiable (orElse (typeField d) (JStr [])) \<longleftrightarrow> stringifiable (typeField d)"
    by (cases "typeField d") (simp_all add: orElse_def)
  have a: "if stringifiable (typeField d)
    then \<exists>s. jsString (numberToString rt) (orElse (typeField d) (JStr [])) = Inr s
           \<and> getConnType rt d = Inr (?classify s)
    else getConnType rt d = Inl TypeError"
  proof (cases "stringifiable (typeField d)")
    case True
    with str jsString_stringifiable [of "numberToString rt" "orElse (typeField d) (JStr [])" "[]"]
    obtain s where "jsString (numberToString rt) (orElse (typeField d) (JStr [])) = Inr s"
      by auto
    with True show ?thesis by (simp add: eq)
  next
    case False
    with str jsString_stringifiable [of "numberToString rt" "orElse (typeField d) (JStr [])" "[]"]
    have "jsString (numberToString rt) (orElse (typeField d) (JStr [])) = Inl TypeError"
      by (cases "jsString (numberToString rt) (orElse (typeField d) (JStr []))") auto
    with False show ?thesis by (simp add: eq)
  qed
  have b: "typeField d = JStr s \<longrightarrow> getConnType rt d = Inr (?classify s)"
    by (simp add: eq orElse_def)
  have c: "(nullish (typeField d) \<or> typeField d = JStr []) \<and> toUpperCase rt (trim rt []) = [] \<longrightarrow>
      getConnType rt d = Inr []"
    by (auto simp: eq orElse_def)
  have n: "typeField (JObj [(''Connection_type'', JStr ''N_TYPE'')]) = JStr ''N_TYPE''"
    by (simp add: typeField_def)
  have d: "toUpperCase rt (trim rt ''N_TYPE'') = ''N_TYPE'' \<longrightarrow>
      getConnType rt (JObj [(''Connection_type'', JStr ''N_TYPE'')]) = Inr ''N''"
    by (simp add: eq n orElse_def)
  from a b c d show ?thesis by (simp only: simp_thms)
qed

theorem getConnType_amended_witness:
  "typeField (JObj [(''properties'', JObj [(''connection_type'', JStr '' n_type '')])]) = JStr '' n_type ''
   \<and> getConnType sampleRuntime (JObj [(''properties'', JObj [(''connection_type'', JStr '' n_type '')])]) = Inr ''N''
   \<and> nullish (typeField (JObj [(''IER'', JNull)]))
   \<and> toUpperCase sampleRuntime (trim sampleRuntime []) = []
   \<and> getConnType sampleRuntime (JObj [(''IER'', JNull)]) = Inr []
   \<and> toUpperCase sampleRuntime (trim sampleRuntime ''N_TYPE'') = ''N_TYPE''
   \<and> getConnType sampleRuntime (JObj [(''Connection_type'', JStr ''N_TYPE'')]) = Inr ''N''
   \<and> stringifiable (typeField (JObj [(''connection_type'', JArr [JStr ''tr'', JNull])]))
   \<and> getConnType sampleRuntime (JObj [(''connection_type'', JArr [JStr ''tr'', JNull])]) = Inr ''TR,''"
  using getConnType_amended [of "JObj [(''properties'', JObj [(''connection_type'', JStr '' n_type '')])]"
      sampleRuntime "'' n_type ''"]
    getConnType_amended [of "JObj [(''IER'', JNull)]" sampleRuntime "[]"]
    getConnType_amended [of "JObj [(''connection_type'', JArr [JStr ''tr'', JNull])]" sampleRuntime "[]"]
  by (simp add: typeField_def orElse_def asciiTrim_def asciiUpperCase_def toUpperChar_def
      isWhiteSpace_def)

text \<open>
  Claim C8 as stated fails: the extractor throws on a tag array that holds an object with
  an own member named \<^verbatim>\<open>toString\<close>, because \<^verbatim>\<open>String\<close> of such an object throws.
\<close>

theorem getIERArray_never_throws_counterexample:
  "getIERArray sampleRuntime (JObj [(''IER'', JArr [JObj [(''toString'', JNum 1)]])]) = Inl TypeError"
  by (simp add: getIERArray_def getProp_def orElse_def)

text \<open>
  Claim C8, amended. For every record the tag-array extractor returns the empty array when
  the tag field is missing or is not an array. When the field holds an array none of whose
  elements is or contains (through nested arrays) an object with an own member named
  \<^verbatim>\<open>toString\<close>, it returns the elements, each converted to a string (\<^verbatim>\<open>null\<close> to the
  empty string) and upper-cased, and does not throw; otherwise it throws a
  \<^verbatim>\<open>TypeError\<close>.
\<close>

theorem getIERArray_amended:
  "((\<forall>items. getProp d ''IER'' \<noteq> JArr items) \<longrightarrow> getIERArray rt d = Inr [])
   \<and> (\<forall>items. getProp d ''IER'' = JArr items \<longrightarrow>
        (if \<forall>x \<in> set items. stringifiable x
         then \<exists>ss. getIERArray rt d = Inr ss
                \<and> map Inr ss =
                    map (\<lambda>item. map_sum id (toUpperCase rt)
                                  (jsString (numberToString rt) (orElse item (JStr [])))) items
         else getIERArray rt d = Inl TypeError))"
proof (intro conjI allI impI)
  assume "\<forall>items. getProp d ''IER'' \<noteq> JArr items"
  then show "getIERArray rt d = Inr []"
    by (cases "getProp d ''IER''") (simp_all add: getIERArray_def)
next
  fix items
  assume arr: "getProp d ''IER'' = JArr items"
  let ?f = "\<lambda>item. case jsString (numberToString rt) (orElse item (JStr [])) of
                      Inl e \<Rightarrow> Inl e | Inr s \<Rightarrow> Inr (toUpperCase rt s)"
  have g: "getIERArray rt d = mapE ?f items"
    by (simp add: getIERArray_def arr)
  have f_ok: "(\<exists>s. ?f x = Inr s) \<longleftrightarrow> stringifiable x" for x
    using jsString_stringifiable [of "numberToString rt" x "[]"]
    by (cases x) (auto simp: orElse_def split: sum.splits)
  have f_eq: "?f x = map_sum id (toUpperCase rt) (jsString (numberToString rt) (orElse x (JStr [])))" for x
    by (simp split: sum.splits)
  show "if \<forall>x \<in> set items. stringifiable x
        then \<exists>ss. getIERArray rt d = Inr ss
                \<and> map Inr ss =
                    map (\<lambda>item. map_sum id (toUpperCase rt)
                                  (jsString (numberToString rt) (orElse item (JStr [])))) items
        else getIERArray rt d = Inl TypeError"
  proof (cases "\<forall>x \<in> set items. stringifiable x")
    case True
    have "mapE ?f items \<noteq> Inl TypeError"
      unfolding mapE_Inl_iff using True f_ok by (metis Inl_Inr_False)
    then obtain ss where ss: "mapE ?f items = Inr ss"
      by (cases "mapE ?f items") auto
    then have "map ?f items = map Inr ss"
      by (simp add: mapE_Inr_iff)
    with ss g True show ?thesis
      by (simp only: f_eq if_True) auto
  next
    case False
    then obtain x where "x \<in> set items" "\<not> stringifiable x" by blast
    then have "?f x = Inl TypeError"
      using f_ok [of x] by (cases "?f x") auto
    with \<open>x \<in> set items\<close> have "mapE ?f items = Inl TypeError"
      unfolding mapE_Inl_iff by blast
    with g False show ?thesis by simp
  qed
qed

theorem getIERArray_amended_witness:
  "getIERArray sampleRuntime (JObj [(''properties'', JObj [(''IER'', JArr [JStr ''Sit'', JNull, JBool True])])])
     = Inr [''SIT'', [], ''TRUE'']
   \<and> getIERArray sampleRuntime (JObj [(''IER'', JStr ''sit'')]) = Inr []"
  using getIERArray_amended [of "JObj [(''properties'', JObj [(''IER'', JArr [JStr ''Sit'', JNull, JBool True])])]" sampleRuntime]
   getIERArray_amended [of "JObj [(''IER'', JStr ''sit'')]" sampleRuntime]
  by (auto simp: getProp_def orElse_def asciiUpperCase_def toUpperChar_def)

section \<open>Properties of the visibility engine\<close>

text \<open>
  Claim C2 as stated fails in the tag dimension: with no active tag every connection
  passes the tag test, and enabling one tag hides the connections that do not carry it.
\<close>

theorem isConnectionVisible_monotone_counterexample:
  "enablesMore (sampleFilter []) (sampleFilter [''SIT''])
   \<and> isConnectionVisible (sampleFilter []) (sampleResolved [''LOCATION''])
   \<and> \<not> isConnectionVisible (sampleFilter [''SIT'']) (sampleResolved [''LOCATION''])"
  by (simp add: enablesMore_def isConnectionVisible_def getConnectionFilterValue_def
      sampleFilter_def sampleResolved_def has_def hasPinType_def)

text \<open>
  Claim C2, amended. The visibility predicate of a connection is monotonic in the filter
  sets once tag filtering is on: for filter states \<open>s\<close> and \<open>s'\<close> where \<open>s'\<close> has every
  active category, group and tag of \<open>s\<close> and the same hub-suppression flags, and where
  \<open>s\<close> has at least one active tag or \<open>s'\<close> has none, a connection visible under \<open>s\<close>
  is visible under \<open>s'\<close>.
\<close>

theorem isConnectionVisible_monotone:
  assumes "enablesMore s s'"
    and "activeIerTypes s \<noteq> [] \<or> activeIerTypes s' = []"
    and "isConnectionVisible s d"
  shows "isConnectionVisible s' d"
proof -
  from assms(3) have v:
    "c_connType d \<in> set (activeTypes s)"
    "\<not> hideHubConnections s \<or> \<not> c_isHub1 d"
    "\<not> hideHub2Connections s \<or> \<not> c_isHub2 d"
    "c_sourcePinType d \<in> Group ` set (activePointTypes s)"
    "c_targetPinType d \<in> Group ` set (activePointTypes s)"
    "activeIerTypes s = [] \<or> (\<exists>t \<in> set (c_ierTypes d). t \<in> set (activeIerTypes s))"
    by (auto simp: isConnectionVisible_def getConnectionFilterValue_def has_def hasPinType_def
        Let_def list_ex_iff split: if_splits)
  from assms(1) have e:
    "set (activeTypes s) \<subseteq> set (activeTypes s')"
    "set (activePointTypes s) \<subseteq> set (activePointTypes s')"
    "set (activeIerTypes s) \<subseteq> set (activeIerTypes s')"
    "hideHubConnections s = hideHubConnections s'"
    "hideHub2Connections s = hideHub2Connections s'"
    by (simp_all add: enablesMore_def)
  have tags: "activeIerTypes s' = [] \<or> (\<exists>t \<in> set (c_ierTypes d). t \<in> set (activeIerTypes s'))"
    using assms(2) v(6) e(3) by blast
  from v(1-5) e tags show ?thesis
    by (auto simp: isConnectionVisible_def getConnectionFilterValue_def has_def hasPinType_def
        Let_def list_ex_iff)
qed

theorem isConnectionVisible_monotone_witness:
  "enablesMore (sampleFilter [''SIT'']) (sampleFilter [''SIT'', ''NRP''])
   \<and> activeIerTypes (sampleFilter [''SIT'']) \<noteq> []
   \<and> isConnectionVisible (sampleFilter [''SIT'']) (sampleResolved [''SIT''])
   \<and> isConnectionVisible (sampleFilter [''SIT'', ''NRP'']) (sampleResolved [''SIT''])"
proof -
  have a: "enablesMore (sampleFilter [''SIT'']) (sampleFilter [''SIT'', ''NRP''])"
    by (simp add: enablesMore_def sampleFilter_def)
  have b: "activeIerTypes (sampleFilter [''SIT'']) \<noteq> []"
    by (simp add: sampleFilter_def)
  have c: "isConnectionVisible (sampleFilter [''SIT'']) (sampleResolved [''SIT''])"
    by (simp add: isConnectionVisible_def getConnectionFilterValue_def
      sampleFilter_def sampleResolved_def has_def hasPinType_def)
  from isConnectionVisible_monotone [OF a disjI1 [OF b] c] a b c show ?thesis by simp
qed

section \<open>Properties of the connection resolver\<close>

lemma targetLongitude_Some_iff:
  "targetLongitude pm c = Some lng \<longleftrightarrow>
     (\<exists>name toPoint rest. getProp c ''to'' = JStr name \<and> pm name = Some toPoint
        \<and> f_geometry toPoint = Point (lng # rest))"
proof -
  have n: "nthOpt xs 0 = Some lng \<longleftrightarrow> (\<exists>rest. xs = lng # rest)" for xs
    by (cases xs) auto
  show ?thesis
    by (auto simp: targetLongitude_def pointMapGet_def n
        split: option.splits json.splits geometry.splits)
qed

text \<open>
  Claim C5. The inclusion rule of the first filter applies to connections of category
  \<^verbatim>\<open>TR\<close> only, and is anchored to the source names \<^verbatim>\<open>Ohio Pin\<close> and \<^verbatim>\<open>FOB1\<close> and
  to the longitude \<open>-90\<close>: a \<^verbatim>\<open>TR\<close> connection from \<^verbatim>\<open>Ohio Pin\<close> is kept iff its
  resolved target longitude is greater than \<open>-90\<close>, one from \<^verbatim>\<open>FOB1\<close> iff it is less
  than \<open>-90\<close>; a \<^verbatim>\<open>TR\<close> connection whose target does not resolve to a coordinate is
  kept, and so is every connection of another category or from another source. The
  resolved target longitude is the first coordinate of the \<^verbatim>\<open>Point\<close> the index holds
  under the name in \<^verbatim>\<open>to\<close>.
\<close>

theorem keepConnection_rule:
  assumes "getConnType rt c = Inr connType"
  shows "(connType = ''TR'' \<and> getProp c ''from'' = JStr ''Ohio Pin''
            \<and> targetLongitude pm c = Some toLng
          \<longrightarrow> keepConnection rt pm c = Inr (toLng > -90))
       \<and> (connType = ''TR'' \<and> getProp c ''from'' = JStr ''FOB1''
            \<and> targetLongitude pm c = Some toLng
          \<longrightarrow> keepConnection rt pm c = Inr (toLng < -90))
       \<and> (connType = ''TR'' \<and> targetLongitude pm c = None
          \<longrightarrow> keepConnection rt pm c = Inr True)
       \<and> (connType \<noteq> ''TR''
            \<or> (getProp c ''from'' \<noteq> JStr ''Ohio Pin'' \<and> getProp c ''from'' \<noteq> JStr ''FOB1'')
          \<longrightarrow> keepConnection rt pm c = Inr True)
       \<and> (targetLongitude pm c = Some toLng \<longleftrightarrow>
            (\<exists>name toPoint rest. getProp c ''to'' = JStr name \<and> pm name = Some toPoint
               \<and> f_geometry toPoint = Point (toLng # rest)))"
  using assms
  by (auto simp: keepConnection_def targetLongitude_Some_iff split: option.splits)

lemma buildPointMap_sample:
  "buildPointMap samplePoints ''West'' = Some (pointFeature ''West'' [-100, 35])"
  "buildPointMap samplePoints ''East'' = Some (pointFeature ''East'' [-80, 35])"
  "buildPointMap samplePoints ''FOB1'' = Some (pointFeature ''FOB1'' [-100, 40])"
  "buildPointMap samplePoints ''Ohio Pin'' = Some (pointFeature ''Ohio Pin'' [-83, 40])"
  "buildPointMap samplePoints ''Nowhere'' = None"
  "buildPointMap samplePoints ''Road'' = Some \<lparr>f_name = Some ''Road'', f_properties = None,
       f_geometry = Nested [CArr [CNum 1, CNum 2], CArr [CNum 3, CNum 4]]\<rparr>"
  "buildPointMap samplePoints [] = None"
  by (simp_all add: buildPointMap_def samplePoints_def pointFeature_def getPointName_def Let_def)

lemma getConnType_rawConnection:
  "getConnType sampleRuntime (rawConnection ''TR'' a b) = Inr ''TR''"
  "getConnType sampleRuntime (rawConnection ''RT'' a b) = Inr ''RT''"
  by (simp_all add: getConnType_def rawConnection_def getProp_def orElse_def asciiTrim_def
      asciiUpperCase_def toUpperChar_def isWhiteSpace_def)

lemma getPinType_sample:
  "getPinType (pointFeature ''FOB1'' coordinates) = Group RED_GROUP"
  "getPinType (pointFeature ''West'' coordinates) = Group BLUE_GROUP"
  "getPinType (pointFeature ''constructor'' coordinates) = Inherited ''constructor''"
  by (simp_all add: getPinType_def getPointName_def pointFeature_def PIN_LOOKUP_MAP_def
      objectPrototypeMembers_def)

lemma getProp_rawConnection:
  "getProp (rawConnection t a b) ''from'' = JStr a"
  "getProp (rawConnection t a b) ''to'' = JStr b"
  "getProp (rawConnection t a b) ''IER'' = JUndefined"
  by (simp_all add: rawConnection_def getProp_def orElse_def)

lemma targetLongitude_sample:
  "targetLongitude (buildPointMap samplePoints) (rawConnection t a ''West'') = Some (-100)"
  "targetLongitude (buildPointMap samplePoints) (rawConnection t a ''East'') = Some (-80)"
  "targetLongitude (buildPointMap samplePoints) (rawConnection t a ''Nowhere'') = None"
  "targetLongitude (buildPointMap samplePoints) (rawConnection t a ''Road'') = None"
  by (simp_all add: targetLongitude_def pointMapGet_def getProp_rawConnection
      buildPointMap_sample pointFeature_def)

theorem keepConnection_rule_witness:
  "keepConnection sampleRuntime (buildPointMap samplePoints) (rawConnection ''TR'' ''Ohio Pin'' ''East'') = Inr True
   \<and> keepConnection sampleRuntime (buildPointMap samplePoints) (rawConnection ''TR'' ''Ohio Pin'' ''West'') = Inr False
   \<and> keepConnection sampleRuntime (buildPointMap samplePoints) (rawConnection ''TR'' ''FOB1'' ''West'') = Inr True
   \<and> keepConnection sampleRuntime (buildPointMap samplePoints) (rawConnection ''TR'' ''FOB1'' ''East'') = Inr False
   \<and> keepConnection sampleRuntime (buildPointMap samplePoints) (rawConnection ''TR'' ''FOB1'' ''Nowhere'') = Inr True
   \<and> keepConnection sampleRuntime (buildPointMap samplePoints) (rawConnection ''RT'' ''FOB1'' ''East'') = Inr True
   \<and> keepConnection sampleRuntime (buildPointMap samplePoints) (rawConnection ''TR'' ''West'' ''East'') = Inr True"
  using
    keepConnection_rule [OF getConnType_rawConnection(1), of "''Ohio Pin''" "''East''" "buildPointMap samplePoints" "-80"]
    keepConnection_rule [OF getConnType_rawConnection(1), of "''Ohio Pin''" "''West''" "buildPointMap samplePoints" "-100"]
    keepConnection_rule [OF getConnType_rawConnection(1), of "''FOB1''" "''West''" "buildPointMap samplePoints" "-100"]
    keepConnection_rule [OF getConnType_rawConnection(1), of "''FOB1''" "''East''" "buildPointMap samplePoints" "-80"]
    keepConnection_rule [OF getConnType_rawConnection(1), of "''FOB1''" "''Nowhere''" "buildPointMap samplePoints" "0"]
    keepConnection_rule [OF getConnType_rawConnection(2), of "''FOB1''" "''East''" "buildPointMap samplePoints" "-80"]
    keepConnection_rule [OF getConnType_rawConnection(1), of "''West''" "''East''" "buildPointMap samplePoints" "-80"]
  by (simp add: getProp_rawConnection targetLongitude_sample)

section \<open>Properties of the connection aggregator\<close>

lemma map_of_update_entries:
  "map_of (map (\<lambda>(k, a). if k = key then (k, f a) else (k, a)) m)
     = (\<lambda>k. if k = key then map_option f (map_of m key) else map_of m k)"
  by (induction m) (auto simp: fun_eq_iff)

lemma fst_update_entries:
  "map fst (map (\<lambda>(k, a). if k = key then (k, f a) else (k, a)) m) = map fst m"
  by (induction m) (auto simp: case_prod_beta)

lemma aggregateStep_keys:
  "map fst (aggregateStep key conn m)
     = (if key \<in> fst ` set m then map fst m else map fst m @ [key])"
  unfolding aggregateStep_def Let_def fst_update_entries by simp

lemma aggregateStep_map_of:
  "map_of (aggregateStep key conn m)
     = (map_of m)(key \<mapsto> accumulate conn
          (case map_of m key of None \<Rightarrow> newAggregate conn | Some a \<Rightarrow> a))"
proof (cases "key \<in> fst ` set m")
  case True
  then obtain a where "map_of m key = Some a"
    by (metis domD dom_map_of_conv_image_fst)
  with True show ?thesis
    by (auto simp: aggregateStep_def map_of_update_entries fun_eq_iff)
next
  case False
  then have "map_of m key = None"
    by (simp add: map_of_eq_None_iff)
  with False show ?thesis
    by (auto simp: aggregateStep_def map_of_update_entries fun_eq_iff map_add_def
        split: option.splits)
qed

lemma aggregateKey_accumulate [simp]:
  "aggregateKey ns (accumulate conn a) = aggregateKey ns a"
  by (simp add: aggregateKey_def accumulate_def split: option.splits)

lemma aggregateKey_newAggregate [simp]:
  "aggregateKey ns (newAggregate conn) = connectionKey ns conn"
  by (simp add: aggregateKey_def newAggregate_def connectionKey_def split: option.splits)

lemma connectionKey_defined:
  "hasBothPositions c \<longleftrightarrow> (\<exists>k. connectionKey ns c = Inr k)"
  by (auto simp: hasBothPositions_def connectionKey_def split: option.splits)

lemma firstOfKey_append:
  "i < length seen \<Longrightarrow> firstOfKey ns (seen @ cs) i = firstOfKey ns seen i"
  by (auto simp: firstOfKey_def nth_append)

lemma aggregateInv_step:
  assumes inv: "aggregateInv ns seen m" and key: "connectionKey ns c = Inr key"
  shows "aggregateInv ns (seen @ [c]) (aggregateStep key c m)"
proof -
  from inv have d: "distinct (map fst m)"
    and dom: "fst ` set m = {k. \<exists>c \<in> set seen. connectionKey ns c = Inr k}"
    and ent: "\<And>k a. map_of m k = Some a \<Longrightarrow>
           aggregateKey ns a = Inr k
           \<and> a_count a = length (membersOf ns (Inr k) seen)
           \<and> (\<exists>i < length seen. firstOfKey ns seen i
                 \<and> connectionKey ns (seen ! i) = Inr k
                 \<and> a_from a = c_from (seen ! i) \<and> a_to a = c_to (seen ! i)
                 \<and> a_sourcePinType a = c_sourcePinType (seen ! i)
                 \<and> a_targetPinType a = c_targetPinType (seen ! i))"
    by (auto simp: aggregateInv_def)
  have 1: "distinct (map fst (aggregateStep key c m))"
    using d by (auto simp: aggregateStep_keys)
  have 2: "fst ` set (aggregateStep key c m)
      = {k. \<exists>c' \<in> set (seen @ [c]). connectionKey ns c' = Inr k}"
  proof -
    have "fst ` set (aggregateStep key c m) = set (map fst (aggregateStep key c m))"
      by simp
    also have "\<dots> = insert key (fst ` set m)"
      by (auto simp: aggregateStep_keys)
    also have "\<dots> = {k. \<exists>c' \<in> set (seen @ [c]). connectionKey ns c' = Inr k}"
      using dom key by auto
    finally show ?thesis .
  qed
  have 3: "aggregateKey ns a = Inr k
           \<and> a_count a = length (membersOf ns (Inr k) (seen @ [c]))
           \<and> (\<exists>i < length (seen @ [c]). firstOfKey ns (seen @ [c]) i
                 \<and> connectionKey ns ((seen @ [c]) ! i) = Inr k
                 \<and> a_from a = c_from ((seen @ [c]) ! i) \<and> a_to a = c_to ((seen @ [c]) ! i)
                 \<and> a_sourcePinType a = c_sourcePinType ((seen @ [c]) ! i)
                 \<and> a_targetPinType a = c_targetPinType ((seen @ [c]) ! i))"
    if look: "map_of (aggregateStep key c m) k = Some a" for k a
  proof (cases "k = key")
    case False
    with look have old: "map_of m k = Some a"
      by (simp add: aggregateStep_map_of)
    from ent [OF old] obtain i where i: "i < length seen" "firstOfKey ns seen i"
      "connectionKey ns (seen ! i) = Inr k"
      "a_from a = c_from (seen ! i)" "a_to a = c_to (seen ! i)"
      "a_sourcePinType a = c_sourcePinType (seen ! i)"
      "a_targetPinType a = c_targetPinType (seen ! i)"
      and ka: "aggregateKey ns a = Inr k" "a_count a = length (membersOf ns (Inr k) seen)"
      by blast
    from False key have "membersOf ns (Inr k) (seen @ [c]) = membersOf ns (Inr k) seen"
      by (simp add: membersOf_def)
    moreover from i have "i < length (seen @ [c]) \<and> firstOfKey ns (seen @ [c]) i
                 \<and> connectionKey ns ((seen @ [c]) ! i) = Inr k
                 \<and> a_from a = c_from ((seen @ [c]) ! i) \<and> a_to a = c_to ((seen @ [c]) ! i)
                 \<and> a_sourcePinType a = c_sourcePinType ((seen @ [c]) ! i)
                 \<and> a_targetPinType a = c_targetPinType ((seen @ [c]) ! i)"
      by (simp add: firstOfKey_append nth_append)
    ultimately show ?thesis using ka by auto
  next
    case True
    show ?thesis
    proof (cases "map_of m key")
      case None
      with look True have a: "a = accumulate c (newAggregate c)"
        by (simp add: aggregateStep_map_of)
      from None have "key \<notin> fst ` set m"
        by (simp add: map_of_eq_None_iff)
      with dom have fresh: "\<forall>c' \<in> set seen. connectionKey ns c' \<noteq> Inr key" by auto
      then have "membersOf ns (Inr key) seen = []"
        by (simp add: membersOf_def filter_empty_conv)
      with key have cnt: "a_count a = length (membersOf ns (Inr key) (seen @ [c]))"
        by (simp add: a membersOf_def accumulate_def newAggregate_def)
      have first: "firstOfKey ns (seen @ [c]) (length seen)"
        using fresh key by (auto simp: firstOfKey_def nth_append)
      have "length seen < length (seen @ [c]) \<and> firstOfKey ns (seen @ [c]) (length seen)
                 \<and> connectionKey ns ((seen @ [c]) ! length seen) = Inr key
                 \<and> a_from a = c_from ((seen @ [c]) ! length seen)
                 \<and> a_to a = c_to ((seen @ [c]) ! length seen)
                 \<and> a_sourcePinType a = c_sourcePinType ((seen @ [c]) ! length seen)
                 \<and> a_targetPinType a = c_targetPinType ((seen @ [c]) ! length seen)"
        using first key by (simp add: a accumulate_def newAggregate_def)
      with cnt key True show ?thesis
        by (auto simp: a)
    next
      case (Some a0)
      with look True have a: "a = accumulate c a0"
        by (simp add: aggregateStep_map_of)
      from ent [OF Some] obtain i where i: "i < length seen" "firstOfKey ns seen i"
        "connectionKey ns (seen ! i) = Inr key"
        "a_from a0 = c_from (seen ! i)" "a_to a0 = c_to (seen ! i)"
        "a_sourcePinType a0 = c_sourcePinType (seen ! i)"
        "a_targetPinType a0 = c_targetPinType (seen ! i)"
        and ka: "aggregateKey ns a0 = Inr key"
        "a_count a0 = length (membersOf ns (Inr key) seen)"
        by blast
      from key ka have cnt: "a_count a = length (membersOf ns (Inr key) (seen @ [c]))"
        by (simp add: a membersOf_def accumulate_def)
      from i have "i < length (seen @ [c]) \<and> firstOfKey ns (seen @ [c]) i
                 \<and> connectionKey ns ((seen @ [c]) ! i) = Inr key
                 \<and> a_from a = c_from ((seen @ [c]) ! i) \<and> a_to a = c_to ((seen @ [c]) ! i)
                 \<and> a_sourcePinType a = c_sourcePinType ((seen @ [c]) ! i)
                 \<and> a_targetPinType a = c_targetPinType ((seen @ [c]) ! i)"
        by (simp add: firstOfKey_append nth_append a accumulate_def)
      with cnt ka True show ?thesis
        by (auto simp: a)
    qed
  qed
  from 1 2 3 show ?thesis
    unfolding aggregateInv_def by blast
qed

lemma aggregateLoop_inv:
  assumes "aggregateInv ns seen m" and "\<forall>c \<in> set conns. hasBothPositions c"
  shows "\<exists>m'. aggregateLoop ns m conns = Inr m' \<and> aggregateInv ns (seen @ conns) m'"
  using assms
proof (induction conns arbitrary: seen m)
  case Nil
  then show ?case by simp
next
  case (Cons c conns)
  from Cons.prems(2) obtain key where key: "connectionKey ns c = Inr key"
    using connectionKey_defined [of c ns] by auto
  from aggregateInv_step [OF Cons.prems(1) key]
  have "aggregateInv ns (seen @ [c]) (aggregateStep key c m)" .
  from Cons.IH [OF this] Cons.prems(2) key show ?case by simp
qed

lemma aggregateInv_empty: "aggregateInv ns [] []"
  by (simp add: aggregateInv_def)

lemma pairKey_min_max: "pairKey a b = min a b @ ''|'' @ max a b"
  by (auto simp: pairKey_def min_def max_def)

lemma pairKey_commute: "pairKey a b = pairKey b a"
  by (simp add: pairKey_min_max min.commute max.commute)

lemma sameEndpoints_key:
  "sameEndpoints c c' \<Longrightarrow> connectionKey ns c' = connectionKey ns c"
proof (cases "c_sourcePos c"; cases "c_targetPos c")
qed (auto simp: sameEndpoints_def connectionKey_def pairKey_commute)

lemma two_members:
  assumes "i < length xs" "j < length xs" "i \<noteq> j" "P (xs ! i)" "P (xs ! j)"
  shows "2 \<le> length (filter P xs)"
proof -
  have "{i, j} \<subseteq> {k. k < length xs \<and> P (xs ! k)}"
    using assms by auto
  then have "card {i, j} \<le> card {k. k < length xs \<and> P (xs ! k)}"
    by (intro card_mono) auto
  with assms(3) show ?thesis
    by (simp add: length_filter_conv_card)
qed

lemma aggregateConnections_inv:
  assumes "\<forall>c \<in> set conns. hasBothPositions c"
  shows "\<exists>m. aggregateLoop ns [] conns = Inr m \<and> aggregateInv ns conns m
           \<and> aggregateConnections ns conns = Inr (map snd m)"
proof -
  from aggregateLoop_inv [OF aggregateInv_empty assms, of ns]
  obtain m where "aggregateLoop ns [] conns = Inr m" "aggregateInv ns conns m"
    by auto
  then show ?thesis
    by (auto simp: aggregateConnections_def)
qed

lemma aggregateInv_entry:
  assumes "aggregateInv ns seen m" and "(k, a) \<in> set m"
  shows "map_of m k = Some a"
  using assms by (simp add: aggregateInv_def)

text \<open>
  Claim C3. For every list of resolved connections (each with both positions, as
  preprocessing leaves them), aggregation yields aggregates with pairwise different keys,
  one for the key of every connection and none besides, and the count of an aggregate is
  the number of connections of the list with its key. Two connections between the same
  unordered pair of coordinate arrays (one recorded from A to B, the other from B to A)
  have the same key, so they are merged into one aggregate, whose count is then at least
  2. The key is the two serialized positions in lexicographic order, joined by a bar.
\<close>

theorem aggregate_merges_unordered_pairs:
  assumes "\<forall>c \<in> set conns. hasBothPositions c"
  shows "\<exists>aggs. aggregateConnections ns conns = Inr aggs
      \<and> distinct (map (aggregateKey ns) aggs)
      \<and> (\<forall>c \<in> set conns. \<exists>a \<in> set aggs.
            aggregateKey ns a = connectionKey ns c
            \<and> a_count a = length (membersOf ns (connectionKey ns c) conns))
      \<and> (\<forall>a \<in> set aggs. \<exists>c \<in> set conns. aggregateKey ns a = connectionKey ns c)
      \<and> (\<forall>c \<in> set conns. \<forall>c' \<in> set conns.
            sameEndpoints c c' \<longrightarrow> connectionKey ns c' = connectionKey ns c)
      \<and> (\<forall>i < length conns. \<forall>j < length conns.
            i \<noteq> j \<and> sameEndpoints (conns ! i) (conns ! j) \<longrightarrow>
            2 \<le> length (membersOf ns (connectionKey ns (conns ! i)) conns))
      \<and> (\<forall>c \<in> set conns. \<forall>sourcePos targetPos.
            c_sourcePos c = Some sourcePos \<and> c_targetPos c = Some targetPos \<longrightarrow>
            connectionKey ns c =
              Inr (min (positionString ns sourcePos) (positionString ns targetPos) @ ''|''
                   @ max (positionString ns sourcePos) (positionString ns targetPos)))"
proof -
  from aggregateConnections_inv [OF assms, of ns]
  obtain m where m: "aggregateInv ns conns m"
    and res: "aggregateConnections ns conns = Inr (map snd m)" by blast
  from m have d: "distinct (map fst m)"
    and dom: "fst ` set m = {k. \<exists>c \<in> set conns. connectionKey ns c = Inr k}"
    and ent: "\<And>k a. map_of m k = Some a \<Longrightarrow>
           aggregateKey ns a = Inr k \<and> a_count a = length (membersOf ns (Inr k) conns)"
    by (auto simp: aggregateInv_def)
  have keys: "aggregateKey ns (snd e) = Inr (fst e)" if "e \<in> set m" for e
    using ent [of "fst e" "snd e"] that d by simp
  have 1: "distinct (map (aggregateKey ns) (map snd m))"
  proof -
    have "map (aggregateKey ns) (map snd m) = map Inr (map fst m)"
      using keys by simp
    with d show ?thesis
      by (simp add: distinct_map del: map_map)
  qed
  have 2: "\<exists>a \<in> set (map snd m). aggregateKey ns a = connectionKey ns c
            \<and> a_count a = length (membersOf ns (connectionKey ns c) conns)"
    if "c \<in> set conns" for c
  proof -
    from that assms obtain k where k: "connectionKey ns c = Inr k"
      using connectionKey_defined [of c ns] by auto
    with that dom have "k \<in> fst ` set m" by auto
    then obtain a where a: "(k, a) \<in> set m" by auto
    with d have "map_of m k = Some a" by simp
    from ent [OF this] a k show ?thesis by force
  qed
  have 3: "\<exists>c \<in> set conns. aggregateKey ns a = connectionKey ns c"
    if "a \<in> set (map snd m)" for a
  proof -
    from that obtain e where e: "e \<in> set m" "a = snd e" by auto
    then have "fst e \<in> fst ` set m" by simp
    with dom obtain c where "c \<in> set conns" "connectionKey ns c = Inr (fst e)" by auto
    with keys [OF e(1)] e(2) show ?thesis by metis
  qed
  have 4: "2 \<le> length (membersOf ns (connectionKey ns (conns ! i)) conns)"
    if "i < length conns" "j < length conns" "i \<noteq> j" "sameEndpoints (conns ! i) (conns ! j)"
    for i j
    unfolding membersOf_def
    using that two_members [of i conns j "\<lambda>c. connectionKey ns c = connectionKey ns (conns ! i)"]
      sameEndpoints_key [of "conns ! i" "conns ! j" ns]
    by simp
  have 5: "connectionKey ns c =
              Inr (min (positionString ns sourcePos) (positionString ns targetPos) @ ''|''
                   @ max (positionString ns sourcePos) (positionString ns targetPos))"
    if "c_sourcePos c = Some sourcePos" "c_targetPos c = Some targetPos"
    for c sourcePos targetPos
    using that by (simp add: connectionKey_def pairKey_min_max)
  from res 1 2 3 4 5 sameEndpoints_key show ?thesis
    by (intro exI [of _ "map snd m"]) blast
qed

lemma integerString_samples [simp]:
  "integerString 1 = ''1''" "integerString 2 = ''2''" "integerString 3 = ''3''"
  "integerString 4 = ''4''" "integerString 5 = ''5''" "integerString 6 = ''6''"
  "integerString 7 = ''7''" "integerString 8 = ''8''"
  by (simp_all add: integerString_def digitsOf.simps digitChar_def)

lemma sampleConns_keys:
  "map (connectionKey integerString) sampleConns
     = [Inr ''1,2|3,4'', Inr ''5,6|7,8'', Inr ''1,2|3,4'']"
  by (simp add: sampleConns_def sampleConn_def connectionKey_def positionString_def
      pairKey_def)

lemma sampleConns_aggregated:
  "map_sum id (map (\<lambda>a. (a_count a, a_connTypes a, a_sourcePinType a)))
     (aggregateConnections integerString sampleConns)
   = Inr [(2, [''RT'', ''N''], Group RED_GROUP), (1, [''TR''], Group YELLOW_GROUP)]"
  by (simp add: sampleConns_def sampleConn_def aggregateConnections_def connectionKey_def
      positionString_def pairKey_def aggregateStep_def newAggregate_def accumulate_def
      setAdd_def)

theorem aggregate_merges_unordered_pairs_witness:
  "list_all hasBothPositions sampleConns
   \<and> sameEndpoints (sampleConns ! 0) (sampleConns ! 2)
   \<and> (\<exists>aggs. aggregateConnections integerString sampleConns = Inr aggs
         \<and> distinct (map (aggregateKey integerString) aggs)
         \<and> map a_count aggs = [2, 1])"
proof -
  have h: "\<forall>c \<in> set sampleConns. hasBothPositions c"
    by (simp add: sampleConns_def sampleConn_def hasBothPositions_def)
  have s: "sameEndpoints (sampleConns ! 0) (sampleConns ! 2)"
    by (simp add: sampleConns_def sampleConn_def sameEndpoints_def)
  from aggregate_merges_unordered_pairs [OF h, of integerString]
  obtain aggs where a: "aggregateConnections integerString sampleConns = Inr aggs"
    "distinct (map (aggregateKey integerString) aggs)" by blast
  from a(1) sampleConns_aggregated have "map a_count aggs = [2, 1]"
    by (auto simp: map_eq_Cons_conv)
  with a h s show ?thesis
    by (auto simp: list_all_iff)
qed

lemma entriesAgree_keys: "entriesAgree m m' \<Longrightarrow> map fst m = map fst m'"
  unfolding entriesAgree_def by (induction rule: list_all2_induct) auto

lemma entriesAgree_step:
  assumes m: "entriesAgree m m'" and c: "agreeButEndpoints c c'"
    and new: "key \<notin> fst ` set m \<Longrightarrow> sameGroups c c'"
  shows "entriesAgree (aggregateStep key c m) (aggregateStep key c' m')"
proof -
  let ?m1 = "if key \<in> fst ` set m then m else m @ [(key, newAggregate c)]"
  let ?m1' = "if key \<in> fst ` set m' then m' else m' @ [(key, newAggregate c')]"
  from entriesAgree_keys [OF m] have "set (map fst m) = set (map fst m')" by simp
  then have k: "fst ` set m = fst ` set m'" by simp
  have n: "sameFilterFields (newAggregate c) (newAggregate c')" if "key \<notin> fst ` set m"
    using new [OF that] by (simp add: sameFilterFields_def newAggregate_def sameGroups_def)
  have 1: "entriesAgree ?m1 ?m1'"
    using m k n by (auto simp: entriesAgree_def list_all2_appendI)
  have acc: "sameFilterFields (accumulate c a) (accumulate c' a')"
    if "sameFilterFields a a'" for a a'
    using that c by (simp add: sameFilterFields_def accumulate_def agreeButEndpoints_def)
  have "entriesAgree
     (map (\<lambda>(k, agg). if k = key then (k, accumulate c agg) else (k, agg)) ?m1)
     (map (\<lambda>(k, agg). if k = key then (k, accumulate c' agg) else (k, agg)) ?m1')"
    unfolding entriesAgree_def list_all2_map1 list_all2_map2
    by (rule list_all2_mono [OF 1 [unfolded entriesAgree_def]])
      (auto simp: case_prod_beta acc)
  then show ?thesis
    by (simp add: aggregateStep_def Let_def)
qed

lemma agreeButEndpoints_key:
  "agreeButEndpoints c c' \<Longrightarrow> connectionKey ns c' = connectionKey ns c"
  by (auto simp: agreeButEndpoints_def connectionKey_def split: option.splits)

lemma aggregateLoop_agree:
  assumes "entriesAgree m m'" and "list_all2 agreeButEndpoints cs cs'"
    and "firstsAgree ns (Inr ` fst ` set m) cs cs'"
  shows "rel_sum (=) entriesAgree (aggregateLoop ns m cs) (aggregateLoop ns m' cs')"
  using assms(2, 1, 3)
proof (induction arbitrary: m m' rule: list_all2_induct)
  case Nil
  then show ?case by simp
next
  case (Cons c cs c' cs')
  note key' = agreeButEndpoints_key [OF Cons.hyps(1), of ns]
  show ?case
  proof (cases "connectionKey ns c")
    case (Inl e)
    with key' show ?thesis by simp
  next
    case (Inr key)
    from Cons.prems(2) Inr have new: "key \<notin> fst ` set m \<Longrightarrow> sameGroups c c'"
      by auto
    from entriesAgree_step [OF Cons.prems(1) Cons.hyps(1) new]
    have step: "entriesAgree (aggregateStep key c m) (aggregateStep key c' m')" .
    have "Inr ` fst ` set (aggregateStep key c m)
        = insert (connectionKey ns c) (Inr ` fst ` set m :: (error + string) set)"
    proof -
      have "fst ` set (aggregateStep key c m) = set (map fst (aggregateStep key c m))"
        by simp
      also have "\<dots> = insert key (fst ` set m)"
        by (auto simp: aggregateStep_keys)
      finally show ?thesis by (simp add: Inr)
    qed
    with Cons.prems(2)
    have "firstsAgree ns (Inr ` fst ` set (aggregateStep key c m)) cs cs'" by simp
    from Cons.IH [OF step this] Inr key' show ?thesis by simp
  qed
qed

lemma firstsAgree_from_indices:
  assumes "length cs' = length cs"
    and "\<forall>i < length cs. connectionKey ns (cs ! i) \<notin> seen \<and> firstOfKey ns cs i
           \<longrightarrow> sameGroups (cs ! i) (cs' ! i)"
  shows "firstsAgree ns seen cs cs'"
  using assms
proof (induction cs arbitrary: cs' seen)
  case Nil
  then show ?case by simp
next
  case (Cons c cs)
  from Cons.prems(1) obtain c' ds where cs': "cs' = c' # ds" "length ds = length cs"
    by (cases cs') auto
  have head: "connectionKey ns c \<notin> seen \<longrightarrow> sameGroups c c'"
    using Cons.prems(2) [rule_format, of 0] cs' by (simp add: firstOfKey_def)
  have tail: "\<forall>i < length cs.
      connectionKey ns (cs ! i) \<notin> insert (connectionKey ns c) seen \<and> firstOfKey ns cs i
        \<longrightarrow> sameGroups (cs ! i) (ds ! i)"
  proof (intro allI impI)
    fix i
    assume i: "i < length cs"
      and h: "connectionKey ns (cs ! i) \<notin> insert (connectionKey ns c) seen
                \<and> firstOfKey ns cs i"
    have "firstOfKey ns (c # cs) (Suc i)"
      unfolding firstOfKey_def
    proof (intro allI impI)
      fix j
      assume "j < Suc i"
      with h show "connectionKey ns ((c # cs) ! j) \<noteq> connectionKey ns ((c # cs) ! Suc i)"
        by (cases j) (auto simp: firstOfKey_def)
    qed
    with Cons.prems(2) [rule_format, of "Suc i"] i h cs'
    show "sameGroups (cs ! i) (ds ! i)" by simp
  qed
  from Cons.IH [OF cs'(2) tail] head cs' show ?case by simp
qed

lemma sameFilterFields_visible:
  "sameFilterFields a a' \<Longrightarrow> isAggregateVisible fs a = isAggregateVisible fs a'"
  by (simp add: sameFilterFields_def isAggregateVisible_def getAggregatedFilterValue_def)

lemma entriesAgree_visible:
  "entriesAgree m m' \<Longrightarrow>
     map (isAggregateVisible fs \<circ> snd) m = map (isAggregateVisible fs \<circ> snd) m'"
  unfolding entriesAgree_def
  by (induction rule: list_all2_induct) (auto simp: sameFilterFields_visible)

lemma aggregateLoop_defined:
  "aggregateLoop ns m conns = Inr m' \<Longrightarrow> \<forall>c \<in> set conns. hasBothPositions c"
proof (induction conns arbitrary: m)
  case Nil
  show ?case by simp
next
  case (Cons c conns)
  then show ?case
    by (cases "connectionKey ns c") (auto simp: connectionKey_defined [of c ns])
qed

text \<open>
  Claim C10. An aggregate takes its endpoint references and its endpoint groups from the
  first connection of the list that has its key. So two lists of resolved connections that
  agree, position by position, in coordinates, category, tags and hub flags, and in the
  endpoint groups of the first connection of every key, give aggregates with the same
  visibility under every filter state, however the endpoint groups of the other members
  differ.
\<close>

theorem aggregate_visibility_first_member:
  assumes "length conns' = length conns"
    and "\<forall>i < length conns. agreeButEndpoints (conns ! i) (conns' ! i)"
    and "\<forall>i < length conns. firstOfKey ns conns i \<longrightarrow>
           c_sourcePinType (conns ! i) = c_sourcePinType (conns' ! i)
           \<and> c_targetPinType (conns ! i) = c_targetPinType (conns' ! i)"
  shows "map_sum id (map (isAggregateVisible fs)) (aggregateConnections ns conns)
           = map_sum id (map (isAggregateVisible fs)) (aggregateConnections ns conns')
       \<and> (\<forall>aggs. aggregateConnections ns conns = Inr aggs \<longrightarrow>
            (\<forall>a \<in> set aggs. \<exists>i < length conns.
               firstOfKey ns conns i
               \<and> connectionKey ns (conns ! i) = aggregateKey ns a
               \<and> a_from a = c_from (conns ! i) \<and> a_to a = c_to (conns ! i)
               \<and> a_sourcePinType a = c_sourcePinType (conns ! i)
               \<and> a_targetPinType a = c_targetPinType (conns ! i)))"
proof
  have l: "list_all2 agreeButEndpoints conns conns'"
    using assms(1, 2) by (simp add: list_all2_conv_all_nth)
  have f: "firstsAgree ns {} conns conns'"
    using assms(3) by (intro firstsAgree_from_indices [OF assms(1)]) (simp add: sameGroups_def)
  have "entriesAgree [] []" by (simp add: entriesAgree_def)
  from aggregateLoop_agree [OF this l, of ns] f
  have r: "rel_sum (=) entriesAgree (aggregateLoop ns [] conns) (aggregateLoop ns [] conns')"
    by simp
  then show "map_sum id (map (isAggregateVisible fs)) (aggregateConnections ns conns)
           = map_sum id (map (isAggregateVisible fs)) (aggregateConnections ns conns')"
    by (cases rule: rel_sum.cases)
      (simp_all add: aggregateConnections_def entriesAgree_visible)
next
  show "\<forall>aggs. aggregateConnections ns conns = Inr aggs \<longrightarrow>
            (\<forall>a \<in> set aggs. \<exists>i < length conns.
               firstOfKey ns conns i
               \<and> connectionKey ns (conns ! i) = aggregateKey ns a
               \<and> a_from a = c_from (conns ! i) \<and> a_to a = c_to (conns ! i)
               \<and> a_sourcePinType a = c_sourcePinType (conns ! i)
               \<and> a_targetPinType a = c_targetPinType (conns ! i))"
  proof (intro allI impI ballI)
    fix aggs a
    assume res: "aggregateConnections ns conns = Inr aggs" and a: "a \<in> set aggs"
    then obtain m0 where "aggregateLoop ns [] conns = Inr m0"
      by (auto simp: aggregateConnections_def split: sum.splits)
    from aggregateLoop_defined [OF this]
    have "\<forall>c \<in> set conns. hasBothPositions c" .
    from aggregateConnections_inv [OF this, of ns] res
    obtain m where m: "aggregateInv ns conns m" "aggs = map snd m" by auto
    with a obtain k where "(k, a) \<in> set m" by auto
    with m(1) have look: "map_of m k = Some a" by (simp add: aggregateInv_def)
    from m(1) have "\<forall>k a. map_of m k = Some a \<longrightarrow>
           aggregateKey ns a = Inr k
           \<and> a_count a = length (membersOf ns (Inr k) conns)
           \<and> (\<exists>i < length conns. firstOfKey ns conns i
                 \<and> connectionKey ns (conns ! i) = Inr k
                 \<and> a_from a = c_from (conns ! i) \<and> a_to a = c_to (conns ! i)
                 \<and> a_sourcePinType a = c_sourcePinType (conns ! i)
                 \<and> a_targetPinType a = c_targetPinType (conns ! i))"
      unfolding aggregateInv_def by (elim conjE)
    from this [rule_format, OF look]
    obtain i where "i < length conns" "firstOfKey ns conns i"
      "connectionKey ns (conns ! i) = Inr k" "aggregateKey ns a = Inr k"
      "a_from a = c_from (conns ! i)" "a_to a = c_to (conns ! i)"
      "a_sourcePinType a = c_sourcePinType (conns ! i)"
      "a_targetPinType a = c_targetPinType (conns ! i)"
      by blast
    then show "\<exists>i < length conns.
               firstOfKey ns conns i
               \<and> connectionKey ns (conns ! i) = aggregateKey ns a
               \<and> a_from a = c_from (conns ! i) \<and> a_to a = c_to (conns ! i)
               \<and> a_sourcePinType a = c_sourcePinType (conns ! i)
               \<and> a_targetPinType a = c_targetPinType (conns ! i)"
      by auto
  qed
qed

theorem aggregate_visibility_first_member_witness:
  "length sampleConns' = length sampleConns
   \<and> list_all2 agreeButEndpoints sampleConns sampleConns'
   \<and> c_sourcePinType (sampleConns ! 2) \<noteq> c_sourcePinType (sampleConns' ! 2)
   \<and> map_sum id (map (isAggregateVisible (sampleFilter [])))
        (aggregateConnections integerString sampleConns)
      = map_sum id (map (isAggregateVisible (sampleFilter [])))
        (aggregateConnections integerString sampleConns')"
proof -
  have 1: "length sampleConns' = length sampleConns"
    by (simp add: sampleConns_def sampleConns'_def)
  have 2: "\<forall>i < length sampleConns. agreeButEndpoints (sampleConns ! i) (sampleConns' ! i)"
    by (simp add: sampleConns_def sampleConns'_def sampleConn_def agreeButEndpoints_def
        nth_Cons' All_less_Suc numeral_3_eq_3)
  have k: "connectionKey integerString (sampleConns ! 2)
      = connectionKey integerString (sampleConns ! 0)"
    by (simp add: sampleConns_def sampleConn_def connectionKey_def positionString_def
        pairKey_def)
  have "\<not> firstOfKey integerString sampleConns 2"
    unfolding firstOfKey_def using k by (intro notI) (auto dest: spec [of _ 0])
  then have 3: "\<forall>i < length sampleConns. firstOfKey integerString sampleConns i \<longrightarrow>
           c_sourcePinType (sampleConns ! i) = c_sourcePinType (sampleConns' ! i)
           \<and> c_targetPinType (sampleConns ! i) = c_targetPinType (sampleConns' ! i)"
    by (simp add: sampleConns_def sampleConns'_def sampleConn_def
        nth_Cons' All_less_Suc numeral_3_eq_3 numeral_2_eq_2)
  have 4: "c_sourcePinType (sampleConns ! 2) \<noteq> c_sourcePinType (sampleConns' ! 2)"
    by (simp add: sampleConns_def sampleConns'_def sampleConn_def)
  from aggregate_visibility_first_member [OF 1 2 3, of "sampleFilter []"] 1 2 4
  show ?thesis
    by (simp add: list_all2_conv_all_nth)
qed

section \<open>Properties of the arithmetic of doubles\<close>

text \<open>The rounding is within half a unit in the last place, and it is computed on a
  number whose binade is known. The angles of the label offsets follow: exactly for two
  and for seven slices, and within \<open>2^-41\<close> of the exact formula for fewer than \<open>2^32\<close> of
  them.\<close>

lemma exponent_code [code]:
  "exponent x =
     (if x = 0 then 0
      else if 2 \<le> \<bar>x\<bar> then exponent (x / 2) + 1
      else if \<bar>x\<bar> < 1 then exponent (x * 2) - 1
      else 0)"
proof -
  have half: "exponent x = exponent (x / 2) + 1" if "x \<noteq> 0"
  proof -
    have "log 2 \<bar>x\<bar> = log 2 \<bar>x / 2\<bar> + 1"
      using that by (simp add: log_divide)
    then show ?thesis using that by (simp add: exponent_def)
  qed
  have double: "exponent x = exponent (x * 2) - 1" if "x \<noteq> 0"
  proof -
    have "log 2 \<bar>x * 2\<bar> = log 2 \<bar>x\<bar> + 1"
      using that by (simp add: abs_mult log_mult)
    then show ?thesis using that by (simp add: exponent_def)
  qed
  have unit: "exponent x = 0" if "1 \<le> \<bar>x\<bar>" "\<bar>x\<bar> < 2"
  proof -
    have "0 \<le> log 2 \<bar>x\<bar>" using that(1) by simp
    moreover have "log 2 \<bar>x\<bar> < 1" using that by (simp add: log_less_iff)
    ultimately have "\<lfloor>log 2 \<bar>x\<bar>\<rfloor> = 0" by (intro floor_unique) auto
    then show ?thesis by (simp add: exponent_def)
  qed
  have zero: "exponent 0 = 0" by (simp add: exponent_def)
  show ?thesis using half double unit zero by (cases "x = 0") auto
qed

lemma ulp_powr: "2 powi (e - 52) = 2 powr (real_of_int e - 52)"
  using powr_real_of_int' [of 2 "e - 52"] by simp

lemma binary64_alt:
  "binary64 x =
     (if x = 0 then 0
      else let e = max \<lfloor>log 2 \<bar>x\<bar>\<rfloor> (- 1022);
               ulp = 2 powr (real_of_int e - 52)
           in real_of_int (roundHalfEven (x / ulp)) * ulp)"
  by (simp add: binary64_def exponent_def ulp_powr Let_def)

lemma roundHalfEven_near: "\<bar>real_of_int (roundHalfEven q) - q\<bar> \<le> 1 / 2"
  unfolding roundHalfEven_def Let_def by (auto simp: abs_if) linarith+

lemma floor_log2: 
  assumes "2 ^ k \<le> \<bar>x\<bar>" "\<bar>x\<bar> < 2 ^ Suc k"
  shows "\<lfloor>log 2 \<bar>x\<bar>\<rfloor> = int k"
proof -
  have "(0::real) < 2 ^ k" by simp
  with assms(1) have pos: "0 < \<bar>x\<bar>" by linarith
  have "real k \<le> log 2 \<bar>x\<bar>" using assms(1) by (simp add: le_log_of_power)
  moreover have "log 2 \<bar>x\<bar> < real (Suc k)"
  proof -
    have "\<bar>x\<bar> < 2 powr real (Suc k)" using assms(2) powr_realpow [of 2 "Suc k"] by simp
    then show ?thesis using pos by (simp only: log_less_iff [of 2, simplified])
  qed
  ultimately show ?thesis by (intro floor_unique) auto
qed

lemma binary64_eval:
  assumes "2 ^ k \<le> \<bar>x\<bar>" "\<bar>x\<bar> < 2 ^ Suc k" "k \<le> 52"
  shows "binary64 x = real_of_int (roundHalfEven (x * 2 ^ (52 - k))) / 2 ^ (52 - k)"
proof -
  have "(0::real) < 2 ^ k" by simp
  with assms(1) have "0 < \<bar>x\<bar>" by linarith
  then have x: "x \<noteq> 0" by simp
  have e: "max \<lfloor>log 2 \<bar>x\<bar>\<rfloor> (- 1022) = int k" using floor_log2 [OF assms(1,2)] by simp
  have "2 powr (real_of_int (int k) - 52) = 2 powr (- real (52 - k))"
    using assms(3) by (simp add: of_nat_diff)
  also have "\<dots> = 1 / 2 ^ (52 - k)"
    by (simp add: powr_minus powr_realpow inverse_eq_divide)
  finally have u: "2 powr (real_of_int (int k) - 52) = 1 / 2 ^ (52 - k)" .
  show ?thesis unfolding binary64_alt Let_def e u using x by simp
qed

lemma binary64_error:
  "\<bar>binary64 x - x\<bar> \<le> max (\<bar>x\<bar> / 2 ^ 53) (1 / 2 ^ 1075)"
proof (cases "x = 0")
  case True
  then show ?thesis by (simp add: binary64_def)
next
  case False
  define e where "e = max \<lfloor>log 2 \<bar>x\<bar>\<rfloor> (- 1022)"
  define u where "u = 2 powr (real_of_int e - 52)"
  have u: "0 < u" by (simp add: u_def)
  have b: "binary64 x = real_of_int (roundHalfEven (x / u)) * u"
    using False by (simp add: binary64_alt Let_def e_def u_def)
  have "\<bar>binary64 x - x\<bar> = \<bar>real_of_int (roundHalfEven (x / u)) - x / u\<bar> * u"
  proof -
    have "real_of_int (roundHalfEven (x / u)) * u - x = (real_of_int (roundHalfEven (x / u)) - x / u) * u"
      using u by (simp add: left_diff_distrib)
    then show ?thesis using u by (simp add: b abs_mult)
  qed
  also have "\<dots> \<le> 1 / 2 * u"
    using roundHalfEven_near [of "x / u"] u by (intro mult_right_mono) auto
  finally have err: "\<bar>binary64 x - x\<bar> \<le> u / 2" by simp
  have half: "u / 2 = 2 powr real_of_int e / 2 ^ 53"
    by (simp add: u_def powr_diff)
  show ?thesis
  proof (cases "\<lfloor>log 2 \<bar>x\<bar>\<rfloor> \<le> - 1022")
    case True
    then have "e = - 1022" by (simp add: e_def)
    then have "u = 2 powr (- real (1074::nat))" by (simp add: u_def)
    also have "\<dots> = 1 / 2 ^ 1074" by (simp only: powr_minus powr_realpow [of 2, simplified] inverse_eq_divide)
    finally have "u / 2 = 1 / 2 ^ Suc 1074" by (simp only: power_Suc) simp
    then have "u / 2 = 1 / 2 ^ 1075" by (simp only: eval_nat_numeral) 
    with err have "\<bar>binary64 x - x\<bar> \<le> 1 / 2 ^ 1075" by (simp only:)
    then show ?thesis by (rule max.coboundedI2)
  next
    case False
    then have "e = \<lfloor>log 2 \<bar>x\<bar>\<rfloor>" by (simp add: e_def)
    then have "real_of_int e \<le> log 2 \<bar>x\<bar>" by simp
    then have "2 powr real_of_int e \<le> 2 powr log 2 \<bar>x\<bar>" by (simp only: powr_le_cancel_iff) 
    also have "\<dots> = \<bar>x\<bar>" using \<open>x \<noteq> 0\<close> by simp
    finally have "u / 2 \<le> \<bar>x\<bar> / 2 ^ 53" unfolding half by (simp add: divide_right_mono)
    with err have "\<bar>binary64 x - x\<bar> \<le> \<bar>x\<bar> / 2 ^ 53" by (rule order_trans)
    then show ?thesis by (rule max.coboundedI1)
  qed
qed

lemma binary64_zero: "binary64 0 = 0"
  by (simp add: binary64_def)

lemma binary64_small_values:
  "binary64 1 = 1" "binary64 45 = 45" "binary64 90 = 90" "binary64 (- 90) = - 90" "binary64 180 = 180"
proof -
  show "binary64 1 = 1"
    by (subst binary64_eval [of 0]) (simp_all add: roundHalfEven_def Let_def)
  show "binary64 45 = 45"
    by (subst binary64_eval [of 5]) (simp_all add: roundHalfEven_def Let_def)
  show "binary64 90 = 90"
    by (subst binary64_eval [of 6]) (simp_all add: roundHalfEven_def Let_def)
  show "binary64 (- 90) = - 90"
    by (subst binary64_eval [of 6]) (simp_all add: roundHalfEven_def Let_def)
  show "binary64 180 = 180"
    by (subst binary64_eval [of 7]) (simp_all add: roundHalfEven_def Let_def)
qed

lemma midAngle_two: "midAngle 2 0 = 0" "midAngle 2 1 = 180"
  by (simp_all add: midAngle_def sliceAngle_def fadd_def fmul_def fdiv_def binary64_zero
      binary64_small_values)

lemma sliceAngle_seven: "sliceAngle 7 = 3618963986279863 / 2 ^ 46"
  unfolding sliceAngle_def fdiv_def
  by (subst binary64_eval [of 5]) (simp_all add: roundHalfEven_def Let_def)

lemma midAngle_seven:
  "midAngle 7 0 = - 1130926245712457 / 2 ^ 44"
  "midAngle 7 1 = - 1809481993139931 / 2 ^ 47"
  "midAngle 7 2 = 5428445979419795 / 2 ^ 47"
proof -
  have h: "binary64 (3618963986279863 / 2 ^ 46 / 2) = 3618963986279863 / 2 ^ 47"
    by (subst binary64_eval [of 4]) (simp_all add: roundHalfEven_def Let_def)
  have p1: "binary64 (3618963986279863 / 2 ^ 46) = 3618963986279863 / 2 ^ 46"
    by (subst binary64_eval [of 5]) (simp_all add: roundHalfEven_def Let_def)
  have p2: "binary64 (2 * (3618963986279863 / 2 ^ 46)) = 3618963986279863 / 2 ^ 45"
    by (subst binary64_eval [of 6]) (simp_all add: roundHalfEven_def Let_def)
  have a1: "binary64 (- 90 + 3618963986279863 / 2 ^ 46) = - 2714222989709897 / 2 ^ 46"
    by (subst binary64_eval [of 5]) (simp_all add: roundHalfEven_def Let_def)
  have a2: "binary64 (- 90 + 3618963986279863 / 2 ^ 45) = 3618963986279863 / 2 ^ 45 - 90"
    by (subst binary64_eval [of 3]) (simp_all add: roundHalfEven_def Let_def)
  have m0: "binary64 (- 90 + 3618963986279863 / 2 ^ 47) = - 1130926245712457 / 2 ^ 44"
    by (subst binary64_eval [of 6]) (simp_all add: roundHalfEven_def Let_def)
  have m1: "binary64 (- 2714222989709897 / 2 ^ 46 + 3618963986279863 / 2 ^ 47) = - 1809481993139931 / 2 ^ 47"
    by (subst binary64_eval [of 3]) (simp_all add: roundHalfEven_def Let_def)
  have m2: "binary64 (3618963986279863 / 2 ^ 45 - 90 + 3618963986279863 / 2 ^ 47) = 5428445979419795 / 2 ^ 47"
    by (subst binary64_eval [of 5]) (simp_all add: roundHalfEven_def Let_def)
  show "midAngle 7 0 = - 1130926245712457 / 2 ^ 44"
    unfolding midAngle_def sliceAngle_seven fadd_def fmul_def fdiv_def
    by (simp only: of_nat_0 mult_zero_left binary64_zero add_0_right binary64_small_values h m0)
  show "midAngle 7 1 = - 1809481993139931 / 2 ^ 47"
    unfolding midAngle_def sliceAngle_seven fadd_def fmul_def fdiv_def
    by (simp only: of_nat_1 mult_1 p1 a1 h m1)
  show "midAngle 7 2 = 5428445979419795 / 2 ^ 47"
    unfolding midAngle_def sliceAngle_seven fadd_def fmul_def fdiv_def
    by (simp only: of_nat_numeral p2 a2 h m2)
qed

lemma binary64_error_abs:
  assumes "\<bar>x\<bar> \<le> 512"
  shows "\<bar>binary64 x - x\<bar> \<le> 1 / 2 ^ 44"
proof -
  have "\<bar>x\<bar> / 2 ^ 53 \<le> 512 / 2 ^ 53" using assms by (intro divide_right_mono) auto
  then have 1: "\<bar>x\<bar> / 2 ^ 53 \<le> 1 / 2 ^ 44" by simp
  have "(2::real) ^ 44 \<le> 2 ^ 1075" by (intro power_increasing) auto
  then have 2: "1 / (2::real) ^ 1075 \<le> 1 / 2 ^ 44" by (intro divide_left_mono) auto
  from 1 2 have "max (\<bar>x\<bar> / 2 ^ 53) (1 / 2 ^ 1075) \<le> 1 / 2 ^ 44" by (rule max.boundedI)
  with binary64_error [of x] show ?thesis by (rule order_trans)
qed

lemma binary64_error_rel:
  assumes "1 / 2 ^ 1022 \<le> \<bar>x\<bar>"
  shows "\<bar>binary64 x - x\<bar> \<le> \<bar>x\<bar> / 2 ^ 53"
proof -
  have "1 / 2 ^ 1022 / 2 ^ 53 \<le> \<bar>x\<bar> / 2 ^ 53" using assms by (intro divide_right_mono) auto
  moreover have "1 / 2 ^ 1022 / 2 ^ 53 = 1 / (2::real) ^ (1022 + 53)"
    by (simp only: power_add) simp
  ultimately have "1 / 2 ^ 1075 \<le> \<bar>x\<bar> / 2 ^ 53" by simp
  then have "max (\<bar>x\<bar> / 2 ^ 53) (1 / 2 ^ 1075) = \<bar>x\<bar> / 2 ^ 53" by (rule max.absorb1)
  with binary64_error [of x] show ?thesis by simp
qed

lemma midAngle_error:
  assumes "0 < N" "N < 2 ^ 32" "i < N"
  shows "\<bar>midAngle N i - (- 90 + real i * (360 / real N) + 360 / real N / 2)\<bar> \<le> 1 / 2 ^ 41"
proof -
  define r where "r = 360 / real N"
  define s where "s = binary64 r"
  define t where "t = real i * r"
  define q where "q = real i * s"
  define p where "p = binary64 q"
  define a where "a = binary64 (- 90 + p)"
  define h where "h = binary64 (s / 2)"
  define m where "m = binary64 (a + h)"
  define eps :: real where "eps = 1 / 2 ^ 44"
  have eps: "0 \<le> eps" "eps \<le> 1" "360 / 2 ^ 53 \<le> eps" "8 * eps = 1 / 2 ^ 41"
    by (simp_all add: eps_def)
  have m: "midAngle N i = m"
    by (simp add: midAngle_def sliceAngle_def fadd_def fmul_def fdiv_def m_def a_def h_def
        p_def q_def s_def r_def)
  have N: "1 \<le> real N" using assms(1) by simp
  have r: "0 < r" "r \<le> 360" using N by (simp_all add: r_def field_simps)
  have t: "0 \<le> t" "t \<le> 360"
    using assms(1,3) by (simp_all add: t_def r_def field_simps)
  have "real N \<le> real (2 ^ 32)" using assms(2) by (simp only: of_nat_le_iff less_imp_le)
  then have "real N \<le> 2 ^ 32" by simp
  also have "(2::real) ^ 32 \<le> 2 ^ 1022" by (intro power_increasing) auto
  finally have "real N \<le> 360 * 2 ^ 1022" by simp
  then have "1 / 2 ^ 1022 \<le> r" using assms(1) by (simp add: r_def field_simps)
  then have "\<bar>s - r\<bar> \<le> \<bar>r\<bar> / 2 ^ 53"
    unfolding s_def using r(1) by (intro binary64_error_rel) simp
  then have s: "\<bar>s - r\<bar> \<le> r / 2 ^ 53" using r(1) by simp
  have "r / 2 ^ 53 \<le> 360 / 2 ^ 53" using r(2) by (intro divide_right_mono) auto
  with s eps(3) have s': "\<bar>s - r\<bar> \<le> eps" by linarith
  have "\<bar>q - t\<bar> = real i * \<bar>s - r\<bar>"
    by (simp add: q_def t_def right_diff_distrib [symmetric] abs_mult)
  also have "\<dots> \<le> real i * (r / 2 ^ 53)" using s by (intro mult_left_mono) auto
  also have "\<dots> = t / 2 ^ 53" by (simp add: t_def)
  also have "\<dots> \<le> 360 / 2 ^ 53" using t(2) by (intro divide_right_mono) auto
  finally have "\<bar>q - t\<bar> \<le> 360 / 2 ^ 53" .
  with eps(3) have q: "\<bar>q - t\<bar> \<le> eps" by linarith
  have "\<bar>q\<bar> \<le> 512" using q t eps(1,2) by linarith
  then have p: "\<bar>p - q\<bar> \<le> eps" unfolding p_def eps_def by (rule binary64_error_abs)
  have "\<bar>- 90 + p\<bar> \<le> 512" using p q t eps(1,2) by linarith
  then have a: "\<bar>a - (- 90 + p)\<bar> \<le> eps" unfolding a_def eps_def by (rule binary64_error_abs)
  have "\<bar>s / 2\<bar> \<le> 512" using s' r eps(1,2) by linarith
  then have h: "\<bar>h - s / 2\<bar> \<le> eps" unfolding h_def eps_def by (rule binary64_error_abs)
  have "\<bar>a + h\<bar> \<le> 512" using a p q t h s' r eps(1,2) by linarith
  then have "\<bar>m - (a + h)\<bar> \<le> eps" unfolding m_def eps_def by (rule binary64_error_abs)
  with a p q h s' eps(1) have "\<bar>m - (- 90 + t + r / 2)\<bar> \<le> 8 * eps" by linarith
  then show ?thesis by (simp only: eps(4) m t_def r_def)
qed

lemma midAngle_spacing:
  assumes "N < 2 ^ 32" "Suc i < N"
  shows "\<bar>midAngle N (Suc i) - midAngle N i - 360 / real N\<bar> \<le> 1 / 2 ^ 40"
proof -
  define eps :: real where "eps = 1 / 2 ^ 41"
  define r where "r = 360 / real N"
  define t where "t = real i * r"
  define t' where "t' = real (Suc i) * r"
  have eps: "2 * eps = 1 / 2 ^ 40" by (simp add: eps_def)
  have "0 < N" "i < N" using assms(2) by simp_all
  from midAngle_error [OF this(1) assms(1) this(2)] midAngle_error [OF this(1) assms(1) assms(2)]
  have "\<bar>midAngle N i - (- 90 + t + r / 2)\<bar> \<le> eps"
    "\<bar>midAngle N (Suc i) - (- 90 + t' + r / 2)\<bar> \<le> eps"
    by (simp_all only: eps_def t_def t'_def r_def)
  moreover have "t' = t + r"
    by (simp add: t_def t'_def distrib_right)
  ultimately have "\<bar>midAngle N (Suc i) - midAngle N i - r\<bar> \<le> 2 * eps" by linarith
  then show ?thesis by (simp only: eps r_def)
qed

lemma fmul_near_circle:
  assumes "\<bar>c - x\<bar> \<le> d" and "\<bar>x\<bar> \<le> 1" and "d \<le> 1"
  shows "\<bar>fmul 45 c - 45 * x\<bar> \<le> 45 * d + 1 / 2 ^ 44"
proof -
  define y where "y = 45 * c"
  define eps :: real where "eps = 1 / 2 ^ 44"
  from assms have "\<bar>c\<bar> \<le> 2" by linarith
  then have "\<bar>y\<bar> \<le> 512" by (simp add: y_def)
  then have "\<bar>binary64 y - y\<bar> \<le> eps" unfolding eps_def by (rule binary64_error_abs)
  moreover have "\<bar>y - 45 * x\<bar> \<le> 45 * d" using assms(1) by (simp add: y_def)
  ultimately have "\<bar>binary64 y - 45 * x\<bar> \<le> 45 * d + eps" by linarith
  then show ?thesis by (simp only: fmul_def y_def eps_def)
qed

section \<open>Properties of the co-location grouper\<close>

lemma groupStep_keys:
  "map fst (groupStep coords p m)
     = (if coords \<in> fst ` set m then map fst m else map fst m @ [coords])"
  unfolding groupStep_def Let_def fst_update_entries by simp

lemma groupStep_map_of:
  "map_of (groupStep coords p m)
     = (map_of m)(coords \<mapsto> (case map_of m coords of None \<Rightarrow> [] | Some pins \<Rightarrow> pins) @ [p])"
proof (cases "coords \<in> fst ` set m")
  case True
  then obtain pins where "map_of m coords = Some pins"
    by (metis domD dom_map_of_conv_image_fst)
  with True show ?thesis
    by (auto simp: groupStep_def map_of_update_entries fun_eq_iff)
next
  case False
  then have "map_of m coords = None"
    by (simp add: map_of_eq_None_iff)
  with False show ?thesis
    by (auto simp: groupStep_def map_of_update_entries fun_eq_iff map_add_def
        split: option.splits)
qed

lemma groupInv_step:
  assumes inv: "groupInv ns seen m" and key: "pinCoords ns p = Inr coords"
  shows "groupInv ns (seen @ [p]) (groupStep coords p m)"
proof -
  from inv have d: "distinct (map fst m)"
    and dom: "fst ` set m = {k. \<exists>p \<in> set seen. pinCoords ns p = Inr k}"
    and ent: "\<And>k pins. map_of m k = Some pins \<Longrightarrow>
           pins = filter (\<lambda>p. pinCoords ns p = Inr k) seen"
    by (auto simp: groupInv_def)
  have 1: "distinct (map fst (groupStep coords p m))"
    using d by (auto simp: groupStep_keys)
  have 2: "fst ` set (groupStep coords p m)
      = {k. \<exists>q \<in> set (seen @ [p]). pinCoords ns q = Inr k}"
  proof -
    have "fst ` set (groupStep coords p m) = set (map fst (groupStep coords p m))"
      by simp
    also have "\<dots> = insert coords (fst ` set m)"
      by (auto simp: groupStep_keys)
    also have "\<dots> = {k. \<exists>q \<in> set (seen @ [p]). pinCoords ns q = Inr k}"
      using dom key by auto
    finally show ?thesis .
  qed
  have 3: "pins = filter (\<lambda>q. pinCoords ns q = Inr k) (seen @ [p])"
    if look: "map_of (groupStep coords p m) k = Some pins" for k pins
  proof (cases "k = coords")
    case False
    with look have "map_of m k = Some pins"
      by (simp add: groupStep_map_of)
    from ent [OF this] False key show ?thesis by simp
  next
    case True
    show ?thesis
    proof (cases "map_of m coords")
      case None
      then have "coords \<notin> fst ` set m"
        by (simp add: map_of_eq_None_iff)
      with dom have "\<forall>q \<in> set seen. pinCoords ns q \<noteq> Inr coords" by auto
      then have "filter (\<lambda>q. pinCoords ns q = Inr coords) seen = []"
        by (simp add: filter_empty_conv)
      moreover from look True None have "pins = [p]"
        by (simp add: groupStep_map_of)
      ultimately show ?thesis
        using True key by simp
    next
      case (Some old)
      from ent [OF Some] look True Some key show ?thesis
        by (simp add: groupStep_map_of)
    qed
  qed
  from 1 2 3 show ?thesis
    unfolding groupInv_def by blast
qed

lemma groupLoop_inv:
  assumes "groupLoop ns m ps = Inr m'" and "groupInv ns seen m"
  shows "groupInv ns (seen @ ps) m' \<and> (\<forall>p \<in> set ps. \<exists>k. pinCoords ns p = Inr k)"
  using assms
proof (induction ps arbitrary: seen m)
  case Nil
  then show ?case by simp
next
  case (Cons p ps)
  from Cons.prems(1) obtain coords where key: "pinCoords ns p = Inr coords"
    and rest: "groupLoop ns (groupStep coords p m) ps = Inr m'"
    by (cases "pinCoords ns p") auto
  from Cons.IH [OF rest groupInv_step [OF Cons.prems(2) key]] key
  show ?case by simp
qed

lemma groupLoop_returns:
  assumes "\<forall>p \<in> set ps. \<exists>k. pinCoords ns p = Inr k"
  shows "\<exists>m'. groupLoop ns m ps = Inr m'"
  using assms by (induction ps arbitrary: m) auto

lemma assign_count [simp]:
  "g_count (assignLabelOffsets rt (toPinGroup pins)) = length pins"
  by (simp add: assignLabelOffsets_def toPinGroup_def)

lemma assign_length [simp]:
  "length (g_originalPins (assignLabelOffsets rt (toPinGroup pins))) = length pins"
  by (simp add: assignLabelOffsets_def toPinGroup_def)

lemma zip_offsets_features:
  "length pins = length js \<Longrightarrow>
     map (pin_feature \<circ> (\<lambda>(p, i). p\<lparr>pin_labelOffset := f i\<rparr>)) (zip pins js)
       = map pin_feature pins"
  by (induction pins js rule: list_induct2) auto

lemma assign_features:
  "map pin_feature (g_originalPins (assignLabelOffsets rt (toPinGroup pins)))
     = map pin_feature pins"
  by (simp add: assignLabelOffsets_def toPinGroup_def zip_offsets_features)

lemma assign_offsets:
  assumes "1 < length pins" and "i < length pins"
  shows "pin_labelOffset (g_originalPins (assignLabelOffsets rt (toPinGroup pins)) ! i)
           = Some (labelOffset rt (length pins) i)"
  using assms by (simp add: assignLabelOffsets_def toPinGroup_def)

lemma assign_single:
  assumes "length pins = 1"
  shows "g_originalPins (assignLabelOffsets rt (toPinGroup pins)) = pins"
  using assms by (simp add: assignLabelOffsets_def toPinGroup_def)

lemma pinCoords_toPin_Point:
  "f_geometry p = Point coordinates \<Longrightarrow> f_geometry q = Point coordinates \<Longrightarrow>
     pinCoords ns (toPin q) = pinCoords ns (toPin p)"
  by (simp add: pinCoords_def toPin_def)

lemma groupPins_entries:
  assumes "groupPins rt allPoints = Inr groups"
  shows "\<exists>m. groups = map (\<lambda>(coords, pins). assignLabelOffsets rt (toPinGroup pins)) m
           \<and> groupInv (numberToString rt) (map toPin allPoints) m
           \<and> (\<forall>p \<in> set allPoints. \<exists>k. pinCoords (numberToString rt) (toPin p) = Inr k)"
proof -
  from assms obtain m where loop: "groupLoop (numberToString rt) [] (map toPin allPoints) = Inr m"
    and g: "groups = map (\<lambda>(coords, pins). assignLabelOffsets rt (toPinGroup pins)) m"
    by (auto simp: groupPins_def split: sum.splits)
  have "groupInv (numberToString rt) [] []" by (simp add: groupInv_def)
  from groupLoop_inv [OF loop this] g show ?thesis by auto
qed

lemma group_features:
  assumes "groupInv ns (map toPin allPoints) m" and "(k, pins) \<in> set m"
  shows "pins = filter (\<lambda>p. pinCoords ns p = Inr k) (map toPin allPoints)"
    and "pin_feature ` set (g_originalPins (assignLabelOffsets rt (toPinGroup pins)))
           = {p \<in> set allPoints. pinCoords ns (toPin p) = Inr k}"
    and "pins \<noteq> []"
proof -
  from assms have "map_of m k = Some pins" by (simp add: groupInv_def)
  with assms(1) show pins: "pins = filter (\<lambda>p. pinCoords ns p = Inr k) (map toPin allPoints)"
    by (simp add: groupInv_def)
  have "pin_feature ` set (g_originalPins (assignLabelOffsets rt (toPinGroup pins)))
      = set (map pin_feature (g_originalPins (assignLabelOffsets rt (toPinGroup pins))))"
    by simp
  also have "\<dots> = pin_feature ` set pins"
    by (simp only: assign_features set_map)
  also have "\<dots> = {p \<in> set allPoints. pinCoords ns (toPin p) = Inr k}"
  proof -
    have f: "pin_feature (toPin p) = p" for p by (simp add: toPin_def)
    show ?thesis
      unfolding pins by (force simp: f)
  qed
  finally show "pin_feature ` set (g_originalPins (assignLabelOffsets rt (toPinGroup pins)))
           = {p \<in> set allPoints. pinCoords ns (toPin p) = Inr k}" .
  from assms(2) have "k \<in> fst ` set m" by force
  with assms(1) obtain p where "p \<in> set (map toPin allPoints)" "pinCoords ns p = Inr k"
    unfolding groupInv_def by blast
  with pins show "pins \<noteq> []"
    by (auto simp: filter_empty_conv)
qed

text \<open>
  Claim C7 as stated fails in its numerical part: the angles are doubles, and they are not
  evenly spaced. In a group of seven members \<^verbatim>\<open>sliceAngle\<close> is \<open>51.42857142857143\<close> and the
  first three angles are \<open>-64.28571428571428\<close>, \<open>-12.857142857142854\<close> and
  \<open>38.57142857142858\<close> (the doubles these decimals denote, given below as fractions). The
  angle of the second member minus that of the first differs from the angle of the third
  minus that of the second, it is not \<open>360 / 7\<close>, and subtracted as doubles the two angles
  do not give \<^verbatim>\<open>sliceAngle\<close> either.
\<close>

theorem midAngle_evenly_spaced_counterexample:
  "sliceAngle 7 = 3618963986279863 / 2 ^ 46
   \<and> midAngle 7 0 = - 1130926245712457 / 2 ^ 44
   \<and> midAngle 7 1 = - 1809481993139931 / 2 ^ 47
   \<and> midAngle 7 2 = 5428445979419795 / 2 ^ 47
   \<and> midAngle 7 1 - midAngle 7 0 \<noteq> midAngle 7 2 - midAngle 7 1
   \<and> midAngle 7 1 - midAngle 7 0 \<noteq> 360 / 7
   \<and> fsub (midAngle 7 1) (midAngle 7 0) \<noteq> sliceAngle 7"
proof -
  have d: "binary64 (- 1809481993139931 / 2 ^ 47 - - 1130926245712457 / 2 ^ 44)
      = 7237927972559725 / 2 ^ 47"
    by (subst binary64_eval [of 5]) (simp_all add: roundHalfEven_def Let_def)
  show ?thesis
    unfolding fsub_def midAngle_seven sliceAngle_seven d by simp
qed

text \<open>
  Claim C7, amended. Points are grouped by the exact value of their coordinates: every
  point is in exactly one group, and two points with identical coordinate arrays are in
  the same group. The count of a group is the number of its members. A group of \<open>N > 1\<close>
  members gives its member \<open>i\<close> (\<open>i = 0 .. N - 1\<close>) the label offset
  \<open>45 * (cos a, sin a)\<close> with the runtime's cosine and sine, \<open>a\<close> being \<open>Math.PI / 180\<close> times
  the angle \<open>midAngle N i = -90 + i * (360 / N) + (360 / N) / 2\<close> degrees, everything
  computed in doubles. For a group of fewer than \<open>2^32\<close> members the computed angle is within
  \<open>2^-41\<close> of the exact value of that formula, so consecutive angles differ by \<open>360 / N\<close>
  up to \<open>2^-40\<close>. An offset is within \<open>45 * d + 2^-44\<close>, in each coordinate, of the point of
  the circle of radius 45 at the angle \<open>a\<close>, when the runtime's cosine and sine of \<open>a\<close> are
  within \<open>d \<le> 1\<close> of the exact ones. For \<open>N = 2\<close> the two angles are exactly 0 and 180, and
  the first offset is \<open>(45, 0)\<close> when the cosine of 0 is 1 and its sine 0, as the language
  requires. The member of a group of one gets no offset.
\<close>

theorem groupPins_colocated_doubles:
  assumes "groupPins rt allPoints = Inr groups"
  shows "(\<forall>p \<in> set allPoints. \<exists>!g. g \<in> set groups \<and> p \<in> pin_feature ` set (g_originalPins g))
       \<and> (\<forall>p \<in> set allPoints. \<forall>q \<in> set allPoints. \<forall>g \<in> set groups.
            (\<exists>coordinates. f_geometry p = Point coordinates \<and> f_geometry q = Point coordinates)
            \<and> p \<in> pin_feature ` set (g_originalPins g)
            \<longrightarrow> q \<in> pin_feature ` set (g_originalPins g))
       \<and> (\<forall>g \<in> set groups.
            g_count g = length (g_originalPins g) \<and> 0 < g_count g
            \<and> (1 < g_count g \<longrightarrow>
                 (\<forall>i < g_count g.
                    pin_labelOffset (g_originalPins g ! i)
                      = Some (fmul 45 (mathCos rt (fmul (midAngle (g_count g) i) (fdiv MATH_PI 180))),
                              fmul 45 (mathSin rt (fmul (midAngle (g_count g) i) (fdiv MATH_PI 180))))))
            \<and> (g_count g = 1 \<longrightarrow> (\<forall>p \<in> set (g_originalPins g). pin_labelOffset p = None)))
       \<and> (\<forall>N i. midAngle N i
                  = fadd (fadd (- 90) (fmul (real i) (fdiv 360 (real N)))) (fdiv (fdiv 360 (real N)) 2))
       \<and> (\<forall>N i. 0 < N \<and> N < 2 ^ 32 \<and> i < N \<longrightarrow>
            \<bar>midAngle N i - (- 90 + real i * (360 / real N) + 360 / real N / 2)\<bar> \<le> 1 / 2 ^ 41)
       \<and> (\<forall>N i. N < 2 ^ 32 \<and> Suc i < N \<longrightarrow>
            \<bar>midAngle N (Suc i) - midAngle N i - 360 / real N\<bar> \<le> 1 / 2 ^ 40)
       \<and> (\<forall>a d. \<bar>mathCos rt a - cos a\<bar> \<le> d \<and> \<bar>mathSin rt a - sin a\<bar> \<le> d \<and> d \<le> 1 \<longrightarrow>
            \<bar>fmul 45 (mathCos rt a) - 45 * cos a\<bar> \<le> 45 * d + 1 / 2 ^ 44
            \<and> \<bar>fmul 45 (mathSin rt a) - 45 * sin a\<bar> \<le> 45 * d + 1 / 2 ^ 44)
       \<and> midAngle 2 0 = 0 \<and> midAngle 2 1 = 180
       \<and> (mathCos rt 0 = 1 \<and> mathSin rt 0 = 0 \<longrightarrow> labelOffset rt 2 0 = (45, 0))"
proof -
  let ?ns = "numberToString rt"
  let ?F = "\<lambda>pins. assignLabelOffsets rt (toPinGroup pins)"
  let ?feats = "\<lambda>g. pin_feature ` set (g_originalPins g)"
  from groupPins_entries [OF assms] obtain m where
    g: "groups = map (\<lambda>(coords, pins). ?F pins) m"
    and inv: "groupInv ?ns (map toPin allPoints) m"
    and keys: "\<forall>p \<in> set allPoints. \<exists>k. pinCoords ?ns (toPin p) = Inr k"
    by blast
  note feats = group_features [OF inv]
  have entry: "\<exists>k pins. (k, pins) \<in> set m \<and> g' = ?F pins" if "g' \<in> set groups" for g'
    using that unfolding g by auto
  have member: "?F pins \<in> set groups" if "(k, pins) \<in> set m" for k pins
    using that unfolding g by force
  have same: "pins' = pins" if "(k, pins) \<in> set m" "(k, pins') \<in> set m" for k pins pins'
    using feats(1) [OF that(1)] feats(1) [OF that(2)] by simp
  have 1: "\<exists>!g'. g' \<in> set groups \<and> p \<in> ?feats g'" if p: "p \<in> set allPoints" for p
  proof -
    from keys p obtain k where k: "pinCoords ?ns (toPin p) = Inr k" by blast
    with p inv have "k \<in> fst ` set m"
      unfolding groupInv_def by force
    then obtain pins where e: "(k, pins) \<in> set m" by auto
    have in1: "?F pins \<in> set groups \<and> p \<in> ?feats (?F pins)"
      using member [OF e] feats(2) [OF e, of rt] p k by simp
    have "g' = ?F pins" if g': "g' \<in> set groups \<and> p \<in> ?feats g'" for g'
    proof -
      from entry g' obtain k' pins' where e': "(k', pins') \<in> set m" "g' = ?F pins'"
        by blast
      with g' feats(2) [OF e'(1), of rt] have "pinCoords ?ns (toPin p) = Inr k'" by simp
      with k have "k' = k" by simp
      with e e' have "pins' = pins" by (intro same [of k]) simp_all
      with e' show ?thesis by simp
    qed
    with in1 show ?thesis by blast
  qed
  have 2: "q \<in> ?feats g'"
    if "p \<in> set allPoints" "q \<in> set allPoints" "g' \<in> set groups"
      "f_geometry p = Point coordinates" "f_geometry q = Point coordinates"
      "p \<in> ?feats g'" for p q g' coordinates
  proof -
    from entry that(3) obtain k' pins' where e': "(k', pins') \<in> set m" "g' = ?F pins'"
      by blast
    with that(6) feats(2) [OF e'(1), of rt] have "pinCoords ?ns (toPin p) = Inr k'" by simp
    with pinCoords_toPin_Point [OF that(4, 5), of ?ns]
    have "pinCoords ?ns (toPin q) = Inr k'" by simp
    with that(2) feats(2) [OF e'(1), of rt] e'(2) show ?thesis by simp
  qed
  have 3: "g_count g' = length (g_originalPins g') \<and> 0 < g_count g'
            \<and> (1 < g_count g' \<longrightarrow>
                 (\<forall>i < g_count g'.
                    pin_labelOffset (g_originalPins g' ! i)
                      = Some (fmul 45 (mathCos rt (fmul (midAngle (g_count g') i) (fdiv MATH_PI 180))),
                              fmul 45 (mathSin rt (fmul (midAngle (g_count g') i) (fdiv MATH_PI 180))))))
            \<and> (g_count g' = 1 \<longrightarrow> (\<forall>p \<in> set (g_originalPins g'). pin_labelOffset p = None))"
    if "g' \<in> set groups" for g'
  proof -
    from entry that obtain k pins where e: "(k, pins) \<in> set m" "g' = ?F pins"
      by blast
    have a: "g_count g' = length (g_originalPins g')" "0 < g_count g'"
      using feats(3) [OF e(1)] e(2) by simp_all
    have b: "pin_labelOffset (g_originalPins g' ! i)
                      = Some (fmul 45 (mathCos rt (fmul (midAngle (g_count g') i) (fdiv MATH_PI 180))),
                              fmul 45 (mathSin rt (fmul (midAngle (g_count g') i) (fdiv MATH_PI 180))))"
      if "1 < g_count g'" "i < g_count g'" for i
      using that assign_offsets [of pins i rt] e(2)
      by (simp add: labelOffset_def offsetRadius_def Let_def)
    have c: "\<forall>p \<in> set (g_originalPins g'). pin_labelOffset p = None" if "g_count g' = 1"
    proof -
      from that e(2) have "g_originalPins g' = pins"
        by (simp add: assign_single)
      moreover have "set pins \<subseteq> set (map toPin allPoints)"
        using feats(1) [OF e(1)] by auto
      ultimately show ?thesis
        by (auto simp: toPin_def)
    qed
    from a b c show ?thesis by blast
  qed
  have 4: "midAngle N i
      = fadd (fadd (- 90) (fmul (real i) (fdiv 360 (real N)))) (fdiv (fdiv 360 (real N)) 2)"
    for N i
    by (simp add: midAngle_def sliceAngle_def)
  have 5: "\<bar>midAngle N i - (- 90 + real i * (360 / real N) + 360 / real N / 2)\<bar> \<le> 1 / 2 ^ 41"
    if "0 < N \<and> N < 2 ^ 32 \<and> i < N" for N i
    using that midAngle_error [of N i] by blast
  have 6: "\<bar>midAngle N (Suc i) - midAngle N i - 360 / real N\<bar> \<le> 1 / 2 ^ 40"
    if "N < 2 ^ 32 \<and> Suc i < N" for N i
    using that midAngle_spacing [of N i] by blast
  have 7: "labelOffset rt 2 0 = (45, 0)" if "mathCos rt 0 = 1 \<and> mathSin rt 0 = 0"
    using that
    by (simp add: labelOffset_def offsetRadius_def Let_def midAngle_two fmul_def binary64_zero
        binary64_small_values)
  have 8: "\<bar>fmul 45 (mathCos rt a) - 45 * cos a\<bar> \<le> 45 * d + 1 / 2 ^ 44
            \<and> \<bar>fmul 45 (mathSin rt a) - 45 * sin a\<bar> \<le> 45 * d + 1 / 2 ^ 44"
    if "\<bar>mathCos rt a - cos a\<bar> \<le> d \<and> \<bar>mathSin rt a - sin a\<bar> \<le> d \<and> d \<le> 1" for a d
    using that fmul_near_circle [of "mathCos rt a" "cos a" d]
      fmul_near_circle [of "mathSin rt a" "sin a" d]
    by simp
  from 1 2 3 4 5 6 7 8 midAngle_two show ?thesis
    by blast
qed

lemma integerString_sample_coordinates [simp]:
  "integerString (-100) = ''-100''" "integerString (-83) = ''-83''"
  "integerString (-80) = ''-80''" "integerString 40 = ''40''" "integerString 35 = ''35''"
  by (simp_all add: integerString_def digitsOf.simps digitChar_def)

lemma samplePoints_grouped:
  "map_sum id (map (\<lambda>g. (g_count g, map pin_labelOffset (g_originalPins g))))
     (groupPins sampleRuntime samplePoints)
   = Inr [(1, [None]), (1, [None]), (1, [None]),
          (2, [Some (labelOffset sampleRuntime 2 0), Some (labelOffset sampleRuntime 2 1)]),
          (1, [None])]"
  by (simp add: groupPins_def samplePoints_def pointFeature_def toPin_def pinCoords_def
      groupStep_def toPinGroup_def assignLabelOffsets_def upt_rec numeral_2_eq_2)

lemma seriesSum_zero_term: "seriesSum n k 0 x = 0"
  by (induction n arbitrary: k) simp_all

lemma seriesSum_at_zero: "seriesSum (Suc n) k t 0 = t"
  by (simp add: seriesSum_zero_term)

lemma sampleRuntime_at_zero:
  "mathCos sampleRuntime 0 = 1" "mathSin sampleRuntime 0 = 0"
  using seriesSum_at_zero [of 29 0 1]
  by (simp_all add: sampleRuntime_def seriesSum_zero_term binary64_zero binary64_small_values)

theorem groupPins_colocated_doubles_witness:
  "(\<exists>groups. groupPins sampleRuntime samplePoints = Inr groups
     \<and> map g_count groups = [1, 1, 1, 2, 1]
     \<and> map (\<lambda>g. map pin_labelOffset (g_originalPins g)) groups
         = [[None], [None], [None],
            [Some (45, 0), Some (labelOffset sampleRuntime 2 1)], [None]])
   \<and> mathCos sampleRuntime 0 = 1 \<and> mathSin sampleRuntime 0 = 0
   \<and> \<bar>midAngle 7 1 - midAngle 7 0 - 360 / 7\<bar> \<le> 1 / 2 ^ 40
   \<and> \<bar>fmul 45 (mathCos sampleRuntime 0) - 45\<bar> \<le> 1 / 2 ^ 44"
proof -
  from samplePoints_grouped obtain groups where
    g: "groupPins sampleRuntime samplePoints = Inr groups"
    and v: "map (\<lambda>g. (g_count g, map pin_labelOffset (g_originalPins g))) groups
      = [(1, [None]), (1, [None]), (1, [None]),
          (2, [Some (labelOffset sampleRuntime 2 0), Some (labelOffset sampleRuntime 2 1)]),
          (1, [None])]"
    by (cases "groupPins sampleRuntime samplePoints") auto
  note t = groupPins_colocated_doubles [OF g]
  from t sampleRuntime_at_zero have o: "labelOffset sampleRuntime 2 0 = (45, 0)" by blast
  from t have "(7::nat) < 2 ^ 32 \<and> Suc 0 < 7 \<longrightarrow>
      \<bar>midAngle 7 (Suc 0) - midAngle 7 0 - 360 / real (7::nat)\<bar> \<le> 1 / 2 ^ 40"
    by blast
  then have s: "\<bar>midAngle 7 1 - midAngle 7 0 - 360 / 7\<bar> \<le> 1 / 2 ^ 40" by simp
  from t have "\<bar>mathCos sampleRuntime 0 - cos 0\<bar> \<le> 0 \<and> \<bar>mathSin sampleRuntime 0 - sin 0\<bar> \<le> 0
        \<and> (0::real) \<le> 1 \<longrightarrow>
      \<bar>fmul 45 (mathCos sampleRuntime 0) - 45 * cos 0\<bar> \<le> 45 * 0 + 1 / 2 ^ 44"
    by blast
  with sampleRuntime_at_zero
  have c: "\<bar>fmul 45 (mathCos sampleRuntime 0) - 45\<bar> \<le> 1 / 2 ^ 44" by simp
  from v have "map fst (map (\<lambda>g. (g_count g, map pin_labelOffset (g_originalPins g))) groups)
      = [1, 1, 1, 2, 1]"
    and "map snd (map (\<lambda>g. (g_count g, map pin_labelOffset (g_originalPins g))) groups)
      = [[None], [None], [None],
         [Some (labelOffset sampleRuntime 2 0), Some (labelOffset sampleRuntime 2 1)], [None]]"
    by simp_all
  with g o have "\<exists>groups. groupPins sampleRuntime samplePoints = Inr groups
     \<and> map g_count groups = [1, 1, 1, 2, 1]
     \<and> map (\<lambda>g. map pin_labelOffset (g_originalPins g)) groups
         = [[None], [None], [None],
            [Some (45, 0), Some (labelOffset sampleRuntime 2 1)], [None]]"
    by (simp add: comp_def)
  with s c sampleRuntime_at_zero show ?thesis by simp
qed

section \<open>Properties of preprocessing\<close>

lemma getConnType_rawConnection_n_type:
  "getConnType sampleRuntime (rawConnection ''n_type'' a b) = Inr ''N''"
  by (simp add: getConnType_def rawConnection_def getProp_def orElse_def asciiTrim_def
      asciiUpperCase_def toUpperChar_def isWhiteSpace_def)

lemma getIERArray_rawConnection:
  "getIERArray rt (rawConnection t a b) = Inr []"
  by (simp add: getIERArray_def getProp_rawConnection)

lemma sampleConnections_processed:
  "map_sum id (map c_spread)
     (processConnections sampleRuntime (buildPointMap samplePoints) sampleConnections)
   = Inr [rawConnection ''TR'' ''FOB1'' ''West'', rawConnection ''n_type'' ''East'' ''FOB1'']"
  by (simp add: processConnections_def sampleConnections_def keepConnection_def
      resolveConnection_def getConnType_rawConnection getConnType_rawConnection_n_type
      getIERArray_rawConnection getProp_rawConnection
      targetLongitude_sample buildPointMap_sample pointMapGet_def pointCoordinates_def
      pointFeature_def hasBothPositions_def Let_def)

lemma resolveConnection_fields:
  assumes "resolveConnection rt pm c = Inr r"
  shows "c_spread r = c"
    and "c_from r = pointMapGet pm (getProp c ''from'')"
    and "c_to r = pointMapGet pm (getProp c ''to'')"
    and "c_sourcePos r = pointCoordinates (pointMapGet pm (getProp c ''from''))"
    and "c_targetPos r = pointCoordinates (pointMapGet pm (getProp c ''to''))"
    and "getConnType rt c = Inr (c_connType r)"
    and "getIERArray rt c = Inr (c_ierTypes r)"
  using assms by (auto simp: resolveConnection_def Let_def split: sum.splits)

lemma processConnections_member:
  assumes "processConnections rt pm cs = Inr conns" and "r \<in> set conns"
  shows "\<exists>c \<in> set cs. keepConnection rt pm c = Inr True
           \<and> resolveConnection rt pm c = Inr r \<and> hasBothPositions r"
proof -
  from assms(1) obtain kept mapped where
    k: "filterE (keepConnection rt pm) cs = Inr kept"
    and m: "mapE (resolveConnection rt pm) kept = Inr mapped"
    and c: "conns = filter hasBothPositions mapped"
    by (auto simp: processConnections_def split: sum.splits)
  from k filterE_cases [of "keepConnection rt pm" cs]
  have kept: "kept = filter (\<lambda>c. keepConnection rt pm c = Inr True) cs" by auto
  from m have mm: "map (resolveConnection rt pm) kept = map Inr mapped"
    by (simp add: mapE_Inr_iff)
  from assms(2) c have "r \<in> set mapped" "hasBothPositions r" by auto
  then have "Inr r \<in> set (map (resolveConnection rt pm) kept)"
    using mm by simp
  then obtain c where "c \<in> set kept" "resolveConnection rt pm c = Inr r" by auto
  with kept \<open>hasBothPositions r\<close> show ?thesis by auto
qed

lemma pointCoordinates_Some_iff:
  "pointCoordinates (pointMapGet pm key) = Some pos \<longleftrightarrow>
     (\<exists>name p. key = JStr name \<and> pm name = Some p \<and> f_geometry p = Point pos)"
  by (auto simp: pointCoordinates_def pointMapGet_def
      split: option.splits json.splits geometry.splits)

lemma preprocessData_connections:
  assumes "preprocessData rt connectionsJson allPoints = Inr out"
  shows "processConnections rt (buildPointMap allPoints) connectionsJson
           = Inr (processedConnections out)"
  using assms by (auto simp: preprocessData_def split: sum.splits)

lemma groupPins_returns:
  assumes "\<forall>p \<in> set allPoints. f_geometry p \<noteq> GeometryCollection"
  shows "\<exists>groups. groupPins rt allPoints = Inr groups"
proof -
  have "\<exists>k. pinCoords (numberToString rt) (toPin p) = Inr k" if "p \<in> set allPoints" for p
    using assms that by (cases "f_geometry p") (auto simp: pinCoords_def toPin_def)
  then have "\<forall>p \<in> set (map toPin allPoints). \<exists>k. pinCoords (numberToString rt) p = Inr k"
    by auto
  from groupLoop_returns [OF this, of "[]"] show ?thesis
    by (auto simp: groupPins_def)
qed

lemma preprocessData_returns:
  assumes "processConnections rt (buildPointMap allPoints) connectionsJson = Inr conns"
    and "\<forall>p \<in> set allPoints. f_geometry p \<noteq> GeometryCollection"
  shows "\<exists>out. preprocessData rt connectionsJson allPoints = Inr out
           \<and> processedConnections out = conns"
proof -
  from processConnections_member [OF assms(1)]
  have "\<forall>r \<in> set conns. hasBothPositions r" by blast
  from aggregateConnections_inv [OF this, of "numberToString rt"]
  obtain aggs where a: "aggregateConnections (numberToString rt) conns = Inr aggs" by blast
  from groupPins_returns [OF assms(2), of rt]
  obtain groups where g: "groupPins rt allPoints = Inr groups" by blast
  from assms(1) a g show ?thesis
    by (simp add: preprocessData_def)
qed

lemma samplePoints_geometry:
  "\<forall>p \<in> set samplePoints. f_geometry p \<noteq> GeometryCollection"
  by (simp add: samplePoints_def pointFeature_def)

lemma sample_preprocessed:
  "\<exists>out. preprocessData sampleRuntime sampleConnections samplePoints = Inr out
     \<and> map c_spread (processedConnections out)
         = [rawConnection ''TR'' ''FOB1'' ''West'', rawConnection ''n_type'' ''East'' ''FOB1'']"
proof -
  from sampleConnections_processed obtain conns where
    c: "processConnections sampleRuntime (buildPointMap samplePoints) sampleConnections = Inr conns"
    and s: "map c_spread conns
         = [rawConnection ''TR'' ''FOB1'' ''West'', rawConnection ''n_type'' ''East'' ''FOB1'']"
    by (cases "processConnections sampleRuntime (buildPointMap samplePoints) sampleConnections")
      auto
  from preprocessData_returns [OF c samplePoints_geometry] s show ?thesis by auto
qed

text \<open>
  Claim C1. For every list of raw connections and every list of points, every record of
  the resolved connections that preprocessing returns has a defined source position and
  a defined target position: it stems from a raw connection whose \<^verbatim>\<open>from\<close> and
  \<^verbatim>\<open>to\<close> are names the point index resolves to points with coordinates, which are its
  two positions. A raw connection with an endpoint that does not resolve so is the source
  of no record of the output.
\<close>

theorem preprocessData_positions_defined:
  assumes "preprocessData rt connectionsJson allPoints = Inr out"
    and "r \<in> set (processedConnections out)"
  shows "c_sourcePos r \<noteq> None \<and> c_targetPos r \<noteq> None
       \<and> c_spread r \<in> set connectionsJson
       \<and> (\<exists>fromName fromPoint sourcePos.
             getProp (c_spread r) ''from'' = JStr fromName
             \<and> buildPointMap allPoints fromName = Some fromPoint
             \<and> f_geometry fromPoint = Point sourcePos
             \<and> c_sourcePos r = Some sourcePos)
       \<and> (\<exists>toName toPoint targetPos.
             getProp (c_spread r) ''to'' = JStr toName
             \<and> buildPointMap allPoints toName = Some toPoint
             \<and> f_geometry toPoint = Point targetPos
             \<and> c_targetPos r = Some targetPos)"
proof -
  let ?pm = "buildPointMap allPoints"
  from processConnections_member [OF preprocessData_connections [OF assms(1)] assms(2)]
  obtain c where c: "c \<in> set connectionsJson" "resolveConnection rt ?pm c = Inr r"
    "hasBothPositions r" by blast
  note f = resolveConnection_fields [OF c(2)]
  from c(3) obtain sp tp where p: "c_sourcePos r = Some sp" "c_targetPos r = Some tp"
    by (auto simp: hasBothPositions_def)
  from p(1) f(4) have "pointCoordinates (pointMapGet ?pm (getProp c ''from'')) = Some sp"
    by simp
  then obtain fromName fromPoint where s: "getProp c ''from'' = JStr fromName"
    "?pm fromName = Some fromPoint" "f_geometry fromPoint = Point sp"
    unfolding pointCoordinates_Some_iff by blast
  from p(2) f(5) have "pointCoordinates (pointMapGet ?pm (getProp c ''to'')) = Some tp"
    by simp
  then obtain toName toPoint where t: "getProp c ''to'' = JStr toName"
    "?pm toName = Some toPoint" "f_geometry toPoint = Point tp"
    unfolding pointCoordinates_Some_iff by blast
  from c(1) f(1) p s t show ?thesis by auto
qed

theorem preprocessData_positions_defined_witness:
  "\<exists>out r. preprocessData sampleRuntime sampleConnections samplePoints = Inr out
     \<and> r \<in> set (processedConnections out)
     \<and> length sampleConnections = 6 \<and> length (processedConnections out) = 2
     \<and> c_spread r = rawConnection ''TR'' ''FOB1'' ''West''
     \<and> c_sourcePos r \<noteq> None \<and> c_targetPos r \<noteq> None"
proof -
  from sample_preprocessed obtain out where
    out: "preprocessData sampleRuntime sampleConnections samplePoints = Inr out"
    and s: "map c_spread (processedConnections out)
         = [rawConnection ''TR'' ''FOB1'' ''West'', rawConnection ''n_type'' ''East'' ''FOB1'']"
    by (elim exE conjE)
  from s obtain r rs where r: "processedConnections out = r # rs"
    "c_spread r = rawConnection ''TR'' ''FOB1'' ''West''"
    by (auto simp: map_eq_Cons_conv)
  then have m: "r \<in> set (processedConnections out)" by simp
  from s have "length (map c_spread (processedConnections out)) = 2"
    by simp
  then have l: "length (processedConnections out) = 2"
    by simp
  from preprocessData_positions_defined [OF out m] out m r(2) l show ?thesis
    by (auto simp: sampleConnections_def)
qed

lemma fold_index_empty_name:
  "fold (\<lambda>p pointMap. let name = getPointName p in
                         if name \<noteq> [] then pointMap(name \<mapsto> p) else pointMap) ps m [] = m []"
  by (induction ps arbitrary: m) (simp_all add: Let_def)

lemma buildPointMap_empty_name: "buildPointMap allPoints [] = None"
  by (simp add: buildPointMap_def fold_index_empty_name)

text \<open>
  Claim C9. The point index never has an entry for the empty name, whatever the points
  are: the pass that builds it skips the points whose name is empty. So the empty string
  as \<^verbatim>\<open>from\<close> or \<^verbatim>\<open>to\<close> of a connection never resolves, no record of the resolved
  connections stems from such a connection, and processed alone it leaves an empty output
  (unless its type field or its tags make the classifier throw).
\<close>

theorem empty_reference_dropped:
  "buildPointMap allPoints [] = None
   \<and> pointMapGet (buildPointMap allPoints) (JStr []) = None
   \<and> (\<forall>out. preprocessData rt connectionsJson allPoints = Inr out \<longrightarrow>
        (\<forall>r \<in> set (processedConnections out).
           getProp (c_spread r) ''from'' \<noteq> JStr [] \<and> getProp (c_spread r) ''to'' \<noteq> JStr []))
   \<and> (getProp c ''from'' = JStr [] \<or> getProp c ''to'' = JStr [] \<longrightarrow>
        processConnections rt (buildPointMap allPoints) [c] \<noteq> Inl TypeError \<longrightarrow>
        processConnections rt (buildPointMap allPoints) [c] = Inr [])"
proof (intro conjI allI impI ballI)
  show e: "buildPointMap allPoints [] = None"
    by (rule buildPointMap_empty_name)
  then show g: "pointMapGet (buildPointMap allPoints) (JStr []) = None"
    by (simp add: pointMapGet_def)
  {
    fix cs conns r
    assume pc: "processConnections rt (buildPointMap allPoints) cs = Inr conns"
      and r: "r \<in> set conns"
    from processConnections_member [OF pc r]
    obtain c where c: "c \<in> set cs" "resolveConnection rt (buildPointMap allPoints) c = Inr r"
      "hasBothPositions r" by blast
    note f = resolveConnection_fields [OF c(2)]
    have "getProp c ''from'' \<noteq> JStr []"
    proof
      assume "getProp c ''from'' = JStr []"
      with f(4) g have "c_sourcePos r = None" by (simp add: pointCoordinates_def)
      with c(3) show False by (simp add: hasBothPositions_def)
    qed
    moreover have "getProp c ''to'' \<noteq> JStr []"
    proof
      assume "getProp c ''to'' = JStr []"
      with f(5) g have "c_targetPos r = None" by (simp add: pointCoordinates_def)
      with c(3) show False by (simp add: hasBothPositions_def)
    qed
    ultimately have "getProp (c_spread r) ''from'' \<noteq> JStr []
        \<and> getProp (c_spread r) ''to'' \<noteq> JStr [] \<and> c_spread r \<in> set cs"
      using c(1) f(1) by simp
  } note key = this
  {
    fix out r
    assume "preprocessData rt connectionsJson allPoints = Inr out"
      and "r \<in> set (processedConnections out)"
    from key [OF preprocessData_connections [OF this(1)] this(2)]
    show "getProp (c_spread r) ''from'' \<noteq> JStr []" and "getProp (c_spread r) ''to'' \<noteq> JStr []"
      by auto
  }
  assume ref: "getProp c ''from'' = JStr [] \<or> getProp c ''to'' = JStr []"
    and ok: "processConnections rt (buildPointMap allPoints) [c] \<noteq> Inl TypeError"
  then obtain conns where pc: "processConnections rt (buildPointMap allPoints) [c] = Inr conns"
    by (cases "processConnections rt (buildPointMap allPoints) [c]") auto
  have "conns = []"
  proof (cases conns)
    case (Cons r rs)
    with key [OF pc, of r] ref show ?thesis by auto
  qed simp
  with pc show "processConnections rt (buildPointMap allPoints) [c] = Inr []" by simp
qed

theorem empty_reference_dropped_witness:
  "buildPointMap samplePoints [] = None
   \<and> getProp (rawConnection ''RT'' [] ''East'') ''from'' = JStr []
   \<and> rawConnection ''RT'' [] ''East'' \<in> set sampleConnections
   \<and> pointFeature [] [-80, 35] \<in> set samplePoints
   \<and> (\<exists>out. preprocessData sampleRuntime sampleConnections samplePoints = Inr out
         \<and> rawConnection ''RT'' [] ''East'' \<notin> c_spread ` set (processedConnections out))
   \<and> processConnections sampleRuntime (buildPointMap samplePoints) [rawConnection ''RT'' [] ''East'']
       = Inr []"
proof -
  note t = empty_reference_dropped [of samplePoints sampleRuntime sampleConnections
      "rawConnection ''RT'' [] ''East''"]
  from sample_preprocessed obtain out where
    out: "preprocessData sampleRuntime sampleConnections samplePoints = Inr out"
    by (elim exE conjE)
  have f: "getProp (rawConnection ''RT'' [] ''East'') ''from'' = JStr []"
    by (simp add: getProp_rawConnection)
  from t out f have "rawConnection ''RT'' [] ''East'' \<notin> c_spread ` set (processedConnections out)"
    by auto
  moreover have "processConnections sampleRuntime (buildPointMap samplePoints)
      [rawConnection ''RT'' [] ''East''] = Inr []"
    by (simp add: processConnections_def keepConnection_def
      resolveConnection_def getConnType_rawConnection
      getIERArray_rawConnection getProp_rawConnection
      buildPointMap_sample pointMapGet_def pointCoordinates_def
      pointFeature_def hasBothPositions_def Let_def)
  ultimately show ?thesis
    using t out f by (auto simp: sampleConnections_def samplePoints_def)
qed

section \<open>Properties of the filter key\<close>

lemma setAdd_set [simp]: "set (setAdd x xs) = insert x (set xs)"
  by (auto simp: setAdd_def)

lemma setAdd_distinct [simp]: "distinct (setAdd x xs) = distinct xs"
  by (auto simp: setAdd_def)

lemma fold_setAdd_set: "set (fold setAdd xs acc) = set xs \<union> set acc"
  by (induction xs arbitrary: acc) auto

lemma fold_setAdd_distinct: "distinct acc \<Longrightarrow> distinct (fold setAdd xs acc)"
  by (induction xs arbitrary: acc) auto

lemma allOrNone_set: "set (allOrNone items s) \<subseteq> set items"
  by (simp add: allOrNone_def fold_setAdd_set)

lemma allOrNone_distinct: "distinct (allOrNone items s)"
  by (simp add: allOrNone_def fold_setAdd_distinct)

lemma setDelete_set: "set (setDelete x xs) \<subseteq> set xs"
  by (auto simp: setDelete_def)

lemma setDelete_distinct: "distinct xs \<Longrightarrow> distinct (setDelete x xs)"
  by (simp add: setDelete_def distinct_removeAll)

lemma handle_wellFormed:
  assumes "wellFormedFilter s" and "possible ev"
  shows "wellFormedFilter (handle ev s)"
proof (cases ev)
  case AllConnButton
  with assms show ?thesis
    by (simp add: wellFormedFilter_def allOrNone_set allOrNone_distinct)
next
  case (ConnCheckbox key checked)
  with assms setDelete_set [of key "activeTypes s"] show ?thesis
    by (auto simp: wellFormedFilter_def setDelete_distinct)
next
  case AllPinsButton
  with assms show ?thesis
    by (simp add: wellFormedFilter_def allOrNone_distinct)
next
  case AllIerButton
  with assms show ?thesis
    by (simp add: wellFormedFilter_def allOrNone_set allOrNone_distinct)
next
  case (IerCheckbox key checked)
  with assms setDelete_set [of key "activeIerTypes s"] show ?thesis
    by (auto simp: wellFormedFilter_def setDelete_distinct)
next
  case (PinCheckbox key checked)
  with assms show ?thesis
    by (auto simp: wellFormedFilter_def setDelete_distinct)
next
  case DemoStep1
  with assms show ?thesis
    by (simp add: wellFormedFilter_def)
next
  case DemoStep2
  with assms show ?thesis
    by (simp add: wellFormedFilter_def connItemKeys_def)
next
  case DemoStep3
  with assms show ?thesis
    by (simp add: wellFormedFilter_def connItemKeys_def)
qed (use assms in \<open>simp_all add: wellFormedFilter_def\<close>)

lemma reachable_wellFormed: "reachable s \<Longrightarrow> wellFormedFilter s"
proof (induction rule: reachable.induct)
  case start
  show ?case by (simp add: wellFormedFilter_def initialFilterState_def)
next
  case (step s ev)
  then show ?case by (simp add: handle_wellFormed)
qed

lemma separator_split:
  assumes "c \<notin> set a" and "c \<notin> set b" and "a @ c # r = b @ c # r'"
  shows "a = b \<and> r = r'"
proof -
  have t: "takeWhile (\<lambda>x. x \<noteq> c) (a @ c # r) = a" if "c \<notin> set a" for a r
    using that by (induction a) auto
  from t [OF assms(1), of r] t [OF assms(2), of r'] assms(3) have "a = b" by simp
  with assms(3) show ?thesis by simp
qed

lemma join_set: "set (join sep xs) \<subseteq> set sep \<union> \<Union> (set ` set xs)"
  by (induction sep xs rule: join.induct) auto

lemma join_Cons:
  "join sep (x # xs) = x @ (if xs = [] then [] else sep @ join sep xs)"
  by (cases xs) simp_all

lemma join_comma_inj:
  assumes "\<forall>x \<in> set xs. plainKey x" and "\<forall>y \<in> set ys. plainKey y"
    and "join '','' xs = join '','' ys"
  shows "xs = ys"
  using assms
proof (induction xs arbitrary: ys)
  case Nil
  then show ?case
    by (cases ys) (auto simp: join_Cons plainKey_def)
next
  case (Cons x xs)
  show ?case
  proof (cases ys)
    case Nil
    with Cons.prems show ?thesis
      by (auto simp: join_Cons plainKey_def)
  next
    case (Cons y r)
    from Cons.prems(1, 2) Cons have px: "CHR '','' \<notin> set x" and py: "CHR '','' \<notin> set y"
      by (auto simp: plainKey_def)
    from Cons.prems(3) Cons
    have e: "x @ (if xs = [] then [] else CHR '','' # join '','' xs)
        = y @ (if r = [] then [] else CHR '','' # join '','' r)"
      by (auto simp: join_Cons)
    consider "xs = []" "r = []" | "xs = []" "r \<noteq> []" | "xs \<noteq> []" "r = []"
      | "xs \<noteq> []" "r \<noteq> []" by blast
    then show ?thesis
    proof cases
      case 1
      with e Cons show ?thesis by simp
    next
      case 2
      with e have "x = y @ CHR '','' # join '','' r" by simp
      with px show ?thesis by simp
    next
      case 3
      with e have "y = x @ CHR '','' # join '','' xs" by simp
      with py show ?thesis by simp
    next
      case 4
      with e have "x @ CHR '','' # join '','' xs = y @ CHR '','' # join '','' r" by simp
      from separator_split [OF px py this] have "x = y" "join '','' xs = join '','' r"
        by simp_all
      moreover from Cons.prems(1, 2) Cons
      have "\<forall>x \<in> set xs. plainKey x" "\<forall>y \<in> set r. plainKey y" by simp_all
      ultimately show ?thesis
        using Cons.IH [of r] Cons by simp
    qed
  qed
qed

lemma join_plain_no_bar:
  assumes "\<forall>x \<in> set xs. plainKey x"
  shows "CHR ''|'' \<notin> set (join '','' xs)"
  using assms join_set [of "'',''" xs] by (auto simp: plainKey_def)

lemma connItemKeys_plain: "\<forall>k \<in> set connItemKeys. plainKey k"
  by (simp add: connItemKeys_def plainKey_def)

lemma ierItemKeys_plain: "\<forall>k \<in> set ierItemKeys. plainKey k"
  by (simp add: ierItemKeys_def plainKey_def)

lemma pointTypeName_plain: "plainKey (pointTypeName t)"
  by (cases t) (simp_all add: plainKey_def)

lemma pointTypeName_inj: "pointTypeName t = pointTypeName u \<Longrightarrow> t = u"
  by (cases t; cases u) simp_all

lemma sort_same_set:
  fixes xs ys :: "'a :: linorder list"
  assumes "distinct xs" "distinct ys"
  shows "sort xs = sort ys \<longleftrightarrow> set xs = set ys"
proof
  assume "sort xs = sort ys"
  then have "set (sort xs) = set (sort ys)" by simp
  then show "set xs = set ys" by simp
next
  assume "set xs = set ys"
  with assms show "sort xs = sort ys"
    by (intro sorted_distinct_set_unique) simp_all
qed

lemma flag_inj: "flag a = flag b \<longleftrightarrow> a = b"
  by (simp add: flag_def)

lemma flag_no_bar: "CHR ''|'' \<notin> set (flag a)"
  by (simp add: flag_def)

text \<open>The fields of the key, in its order.\<close>

lemma filterKey_fields:
  "filterKey fs =
     join '','' (sort (activeTypes fs)) @ CHR ''|'' #
     (''hub1:'' @ flag (hideHubConnections fs)) @ CHR ''|'' #
     (''hub2:'' @ flag (hideHub2Connections fs)) @ CHR ''|'' #
     join '','' (sort (map pointTypeName (activePointTypes fs))) @ CHR ''|'' #
     join '','' (sort (activeIerTypes fs)) @ CHR ''|'' #
     (''aggregated:'' @ flag (showAggregatedConnections fs)) @ CHR ''|'' #
     (''connLabels:'' @ flag (showConnectionLabels fs)) @ CHR ''|'' #
     (''pinLabels:'' @ flag (showPinLabels fs))"
  by (simp add: filterKey_def)

lemma filterKey_inj:
  assumes w: "wellFormedFilter s" and w': "wellFormedFilter s'"
    and k: "filterKey s = filterKey s'"
  shows "sameFilterState s s'"
proof -
  have types: "\<forall>x \<in> set (sort (activeTypes t)). plainKey x" if "wellFormedFilter t" for t
    using that connItemKeys_plain by (auto simp: wellFormedFilter_def)
  have iers: "\<forall>x \<in> set (sort (activeIerTypes t)). plainKey x" if "wellFormedFilter t" for t
    using that ierItemKeys_plain by (auto simp: wellFormedFilter_def)
  have pts: "\<forall>x \<in> set (sort (map pointTypeName (activePointTypes t))). plainKey x" for t
    by (auto simp: pointTypeName_plain)
  note nb = join_plain_no_bar
  from k have 0: "join '','' (sort (activeTypes s)) @ CHR ''|'' #
     (''hub1:'' @ flag (hideHubConnections s)) @ CHR ''|'' #
     (''hub2:'' @ flag (hideHub2Connections s)) @ CHR ''|'' #
     join '','' (sort (map pointTypeName (activePointTypes s))) @ CHR ''|'' #
     join '','' (sort (activeIerTypes s)) @ CHR ''|'' #
     (''aggregated:'' @ flag (showAggregatedConnections s)) @ CHR ''|'' #
     (''connLabels:'' @ flag (showConnectionLabels s)) @ CHR ''|'' #
     (''pinLabels:'' @ flag (showPinLabels s))
   = join '','' (sort (activeTypes s')) @ CHR ''|'' #
     (''hub1:'' @ flag (hideHubConnections s')) @ CHR ''|'' #
     (''hub2:'' @ flag (hideHub2Connections s')) @ CHR ''|'' #
     join '','' (sort (map pointTypeName (activePointTypes s'))) @ CHR ''|'' #
     join '','' (sort (activeIerTypes s')) @ CHR ''|'' #
     (''aggregated:'' @ flag (showAggregatedConnections s')) @ CHR ''|'' #
     (''connLabels:'' @ flag (showConnectionLabels s')) @ CHR ''|'' #
     (''pinLabels:'' @ flag (showPinLabels s'))"
    by (simp only: filterKey_fields)
  from separator_split [OF nb [OF types [OF w]] nb [OF types [OF w']] 0]
  have a: "join '','' (sort (activeTypes s)) = join '','' (sort (activeTypes s'))"
    and 1: "(''hub1:'' @ flag (hideHubConnections s)) @ CHR ''|'' #
     (''hub2:'' @ flag (hideHub2Connections s)) @ CHR ''|'' #
     join '','' (sort (map pointTypeName (activePointTypes s))) @ CHR ''|'' #
     join '','' (sort (activeIerTypes s)) @ CHR ''|'' #
     (''aggregated:'' @ flag (showAggregatedConnections s)) @ CHR ''|'' #
     (''connLabels:'' @ flag (showConnectionLabels s)) @ CHR ''|'' #
     (''pinLabels:'' @ flag (showPinLabels s))
   = (''hub1:'' @ flag (hideHubConnections s')) @ CHR ''|'' #
     (''hub2:'' @ flag (hideHub2Connections s')) @ CHR ''|'' #
     join '','' (sort (map pointTypeName (activePointTypes s'))) @ CHR ''|'' #
     join '','' (sort (activeIerTypes s')) @ CHR ''|'' #
     (''aggregated:'' @ flag (showAggregatedConnections s')) @ CHR ''|'' #
     (''connLabels:'' @ flag (showConnectionLabels s')) @ CHR ''|'' #
     (''pinLabels:'' @ flag (showPinLabels s'))"
    by blast+
  have hb: "CHR ''|'' \<notin> set (p @ flag b)" if "CHR ''|'' \<notin> set p" for p b
    using that flag_no_bar by simp
  have h1: "CHR ''|'' \<notin> set (''hub1:'' @ flag b)" for b by (rule hb) simp
  have h2: "CHR ''|'' \<notin> set (''hub2:'' @ flag b)" for b by (rule hb) simp
  have h3: "CHR ''|'' \<notin> set (''aggregated:'' @ flag b)" for b by (rule hb) simp
  have h4: "CHR ''|'' \<notin> set (''connLabels:'' @ flag b)" for b by (rule hb) simp
  from separator_split [OF h1 h1 1]
  have b: "flag (hideHubConnections s) = flag (hideHubConnections s')"
    and 2: "(''hub2:'' @ flag (hideHub2Connections s)) @ CHR ''|'' #
     join '','' (sort (map pointTypeName (activePointTypes s))) @ CHR ''|'' #
     join '','' (sort (activeIerTypes s)) @ CHR ''|'' #
     (''aggregated:'' @ flag (showAggregatedConnections s)) @ CHR ''|'' #
     (''connLabels:'' @ flag (showConnectionLabels s)) @ CHR ''|'' #
     (''pinLabels:'' @ flag (showPinLabels s))
   = (''hub2:'' @ flag (hideHub2Connections s')) @ CHR ''|'' #
     join '','' (sort (map pointTypeName (activePointTypes s'))) @ CHR ''|'' #
     join '','' (sort (activeIerTypes s')) @ CHR ''|'' #
     (''aggregated:'' @ flag (showAggregatedConnections s')) @ CHR ''|'' #
     (''connLabels:'' @ flag (showConnectionLabels s')) @ CHR ''|'' #
     (''pinLabels:'' @ flag (showPinLabels s'))"
    by simp_all
  from separator_split [OF h2 h2 2]
  have c: "flag (hideHub2Connections s) = flag (hideHub2Connections s')"
    and 3: "join '','' (sort (map pointTypeName (activePointTypes s))) @ CHR ''|'' #
     join '','' (sort (activeIerTypes s)) @ CHR ''|'' #
     (''aggregated:'' @ flag (showAggregatedConnections s)) @ CHR ''|'' #
     (''connLabels:'' @ flag (showConnectionLabels s)) @ CHR ''|'' #
     (''pinLabels:'' @ flag (showPinLabels s))
   = join '','' (sort (map pointTypeName (activePointTypes s'))) @ CHR ''|'' #
     join '','' (sort (activeIerTypes s')) @ CHR ''|'' #
     (''aggregated:'' @ flag (showAggregatedConnections s')) @ CHR ''|'' #
     (''connLabels:'' @ flag (showConnectionLabels s')) @ CHR ''|'' #
     (''pinLabels:'' @ flag (showPinLabels s'))"
    by simp_all
  from separator_split [OF nb [OF pts] nb [OF pts] 3]
  have d: "join '','' (sort (map pointTypeName (activePointTypes s)))
             = join '','' (sort (map pointTypeName (activePointTypes s')))"
    and 4: "join '','' (sort (activeIerTypes s)) @ CHR ''|'' #
     (''aggregated:'' @ flag (showAggregatedConnections s)) @ CHR ''|'' #
     (''connLabels:'' @ flag (showConnectionLabels s)) @ CHR ''|'' #
     (''pinLabels:'' @ flag (showPinLabels s))
   = join '','' (sort (activeIerTypes s')) @ CHR ''|'' #
     (''aggregated:'' @ flag (showAggregatedConnections s')) @ CHR ''|'' #
     (''connLabels:'' @ flag (showConnectionLabels s')) @ CHR ''|'' #
     (''pinLabels:'' @ flag (showPinLabels s'))"
    by blast+
  from separator_split [OF nb [OF iers [OF w]] nb [OF iers [OF w']] 4]
  have e: "join '','' (sort (activeIerTypes s)) = join '','' (sort (activeIerTypes s'))"
    and 5: "(''aggregated:'' @ flag (showAggregatedConnections s)) @ CHR ''|'' #
     (''connLabels:'' @ flag (showConnectionLabels s)) @ CHR ''|'' #
     (''pinLabels:'' @ flag (showPinLabels s))
   = (''aggregated:'' @ flag (showAggregatedConnections s')) @ CHR ''|'' #
     (''connLabels:'' @ flag (showConnectionLabels s')) @ CHR ''|'' #
     (''pinLabels:'' @ flag (showPinLabels s'))"
    by blast+
  from separator_split [OF h3 h3 5]
  have f: "flag (showAggregatedConnections s) = flag (showAggregatedConnections s')"
    and 6: "(''connLabels:'' @ flag (showConnectionLabels s)) @ CHR ''|'' #
     (''pinLabels:'' @ flag (showPinLabels s))
   = (''connLabels:'' @ flag (showConnectionLabels s')) @ CHR ''|'' #
     (''pinLabels:'' @ flag (showPinLabels s'))"
    by simp_all
  from separator_split [OF h4 h4 6]
  have g: "flag (showConnectionLabels s) = flag (showConnectionLabels s')"
    and h: "flag (showPinLabels s) = flag (showPinLabels s')"
    by simp_all
  from join_comma_inj [OF types [OF w] types [OF w'] a]
  have A: "set (activeTypes s) = set (activeTypes s')"
    using w w' by (simp add: sort_same_set wellFormedFilter_def)
  from join_comma_inj [OF iers [OF w] iers [OF w'] e]
  have E: "set (activeIerTypes s) = set (activeIerTypes s')"
    using w w' by (simp add: sort_same_set wellFormedFilter_def)
  from join_comma_inj [OF pts pts d]
  have "set (sort (map pointTypeName (activePointTypes s)))
      = set (sort (map pointTypeName (activePointTypes s')))" by simp
  then have "pointTypeName ` set (activePointTypes s) = pointTypeName ` set (activePointTypes s')"
    by simp
  then have D: "set (activePointTypes s) = set (activePointTypes s')"
    using pointTypeName_inj by (auto simp: image_iff set_eq_iff)
  from A D E b c f g h show ?thesis
    by (simp add: sameFilterState_def flag_inj)
qed

lemma filterKey_same:
  assumes w: "wellFormedFilter s" and w': "wellFormedFilter s'"
    and k: "sameFilterState s s'"
  shows "filterKey s = filterKey s'"
proof -
  from w w' k have "sort (activeTypes s) = sort (activeTypes s')"
    "sort (activeIerTypes s) = sort (activeIerTypes s')"
    by (simp_all add: sort_same_set wellFormedFilter_def sameFilterState_def)
  moreover have "sort (map pointTypeName (activePointTypes s))
      = sort (map pointTypeName (activePointTypes s'))"
  proof -
    have "distinct (map pointTypeName (activePointTypes t))" if "wellFormedFilter t" for t
      using that pointTypeName_inj
      by (auto simp: distinct_map wellFormedFilter_def inj_on_def)
    with w w' k show ?thesis
      by (simp add: sort_same_set sameFilterState_def)
  qed
  ultimately show ?thesis
    using k by (simp add: filterKey_def sameFilterState_def)
qed

text \<open>
  Claim C4. The filter-state key is a function of the filter state that does not depend on
  the order in which the keys entered its sets, and it tells every two states apart: for
  all states the controls of the page can reach, two states have the same key iff they
  have the same active categories, the same active groups, the same active tags and the
  same values of the two hub-suppression flags, the aggregated-view flag and the two
  label-visibility flags. So the key of an unchanged state is unchanged, and a change of
  any single dimension changes it.
\<close>

theorem filterKey_determines_state:
  assumes "reachable s" and "reachable s'"
  shows "filterKey s = filterKey s' \<longleftrightarrow> sameFilterState s s'"
  using filterKey_inj filterKey_same reachable_wellFormed [OF assms(1)]
    reachable_wellFormed [OF assms(2)]
  by blast

lemma sampleStates_reachable:
  "reachable sampleState1" "reachable sampleState2" "reachable sampleState3"
proof -
  have n: "possible (ConnCheckbox ''N'' True)" and r: "possible (ConnCheckbox ''RT'' True)"
    by (simp_all add: connItemKeys_def)
  show 1: "reachable sampleState1"
    unfolding sampleState1_def
    by (intro reachable.step reachable.start n r)
  show "reachable sampleState2"
    unfolding sampleState2_def
    by (intro reachable.step reachable.start n r)
  from 1 show "reachable sampleState3"
    unfolding sampleState3_def
    by (intro reachable.step) simp_all
qed

text \<open>The restriction to the states the page can reach matters: a set that held the empty
  string would have the key of the empty set. No listener puts such a key in a set.\<close>

lemma filterKey_needs_checkbox_keys:
  "filterKey (initialFilterState\<lparr>activeIerTypes := [[]]\<rparr>) = filterKey initialFilterState
   \<and> \<not> sameFilterState (initialFilterState\<lparr>activeIerTypes := [[]]\<rparr>) initialFilterState"
  by (simp add: filterKey_def sameFilterState_def initialFilterState_def)

theorem filterKey_determines_state_witness:
  "reachable sampleState1 \<and> reachable sampleState2 \<and> reachable sampleState3
   \<and> activeTypes sampleState1 \<noteq> activeTypes sampleState2
   \<and> sameFilterState sampleState1 sampleState2
   \<and> filterKey sampleState1 = filterKey sampleState2
   \<and> filterKey sampleState1 = ''N,RT|hub1:0|hub2:0|||aggregated:0|connLabels:0|pinLabels:0''
   \<and> \<not> sameFilterState sampleState1 sampleState3
   \<and> filterKey sampleState1 \<noteq> filterKey sampleState3"
proof -
  have a: "activeTypes sampleState1 \<noteq> activeTypes sampleState2"
    by (simp add: sampleState1_def sampleState2_def initialFilterState_def setAdd_def)
  have b: "sameFilterState sampleState1 sampleState2"
    by (auto simp: sameFilterState_def sampleState1_def sampleState2_def initialFilterState_def)
  have c: "\<not> sameFilterState sampleState1 sampleState3"
    by (simp add: sameFilterState_def sampleState3_def sampleState1_def initialFilterState_def)
  have d: "filterKey sampleState1 = ''N,RT|hub1:0|hub2:0|||aggregated:0|connLabels:0|pinLabels:0''"
    by (simp add: filterKey_def sampleState1_def initialFilterState_def setAdd_def flag_def)
  from filterKey_determines_state [OF sampleStates_reachable(1, 2)]
    filterKey_determines_state [OF sampleStates_reachable(1, 3)]
    sampleStates_reachable a b c d
  show ?thesis by simp
qed

end
